theory Spec2Isabelle
  imports Complex_Main "HOL-Library.Sublist"
begin

section \<open>RobustSpeciesService: a shallow embedding\<close>

text \<open>
  The service lives in \<^verbatim>\<open>services/RobustSpeciesService.js\<close>. Its methods are embedded
  as HOL functions of the same names. Conventions:
  \<^item> a JavaScript string is a \<^typ>\<open>string\<close>; a character stands for the code unit of the
    same number, so the model covers the code units \<open>0..255\<close>. The regular-expression
    classes are the ECMAScript ones restricted to that range: \<^verbatim>\<open>\s\<close> is tab, line feed,
    vertical tab, form feed, carriage return, space and \<open>0xA0\<close>; \<^verbatim>\<open>\d\<close> is \<open>0-9\<close>;
    \<^verbatim>\<open>\w\<close> is \<open>A-Za-z0-9_\<close>. Case mapping is the ECMAScript one on that range:
    \<^verbatim>\<open>toLowerCase\<close> maps \<open>A-Z\<close> and the letters \<open>0xC0-0xDE\<close> (the multiplication sign
    \<open>0xD7\<close> apart) to the code units 32 above, \<^verbatim>\<open>toUpperCase\<close> maps these back and
    turns the sharp s \<open>0xDF\<close> into \<^verbatim>\<open>SS\<close>. The upper-case forms of \<open>0xB5\<close> and \<open>0xFF\<close>
    (\<open>U+039C\<close> and \<open>U+0178\<close>) lie outside the range, and \<open>toUpperCase\<close> leaves these two
    code units as they are: a string in which they stand where the code takes the upper
    case is not covered.
  \<^item> a JavaScript number that holds a time in milliseconds or a count is an \<^typ>\<open>int\<close>
    or a \<^typ>\<open>nat\<close>; a coordinate is a \<^typ>\<open>real\<close>.
  \<^item> each \<^verbatim>\<open>String.prototype.replace\<close> with a global regular expression is a
    recursive function that scans the string from the left, as the regular-expression
    engine does: at each position it tries the pattern, and after a match it goes on
    behind the match.
\<close>

subsection \<open>Characters and strings\<close>

definition is_space :: "char \<Rightarrow> bool" where
  "is_space c \<longleftrightarrow>
     c \<in> set [CHR 0x09, CHR 0x0A, CHR 0x0B, CHR 0x0C, CHR 0x0D, CHR '' '', CHR 0xA0]"

definition is_digit :: "char \<Rightarrow> bool" where
  "is_digit c \<longleftrightarrow> c \<in> set ''0123456789''"

definition lower_letters :: string where
  "lower_letters = ''abcdefghijklmnopqrstuvwxyz''"

definition upper_letters :: string where
  "upper_letters = ''ABCDEFGHIJKLMNOPQRSTUVWXYZ''"

definition is_word :: "char \<Rightarrow> bool" where
  "is_word c \<longleftrightarrow> c \<in> set lower_letters \<or> c \<in> set upper_letters \<or> is_digit c \<or> c = CHR ''_''"

text \<open>The letters beyond ASCII that have two cases: \<open>0xC0-0xD6\<close> and \<open>0xD8-0xDE\<close> in upper
  case, \<open>0xE0-0xF6\<close> and \<open>0xF8-0xFE\<close> in lower case.\<close>

definition upper_latin :: string where
  "upper_latin =
     [CHR 0xC0, CHR 0xC1, CHR 0xC2, CHR 0xC3, CHR 0xC4, CHR 0xC5, CHR 0xC6, CHR 0xC7,
      CHR 0xC8, CHR 0xC9, CHR 0xCA, CHR 0xCB, CHR 0xCC, CHR 0xCD, CHR 0xCE, CHR 0xCF,
      CHR 0xD0, CHR 0xD1, CHR 0xD2, CHR 0xD3, CHR 0xD4, CHR 0xD5, CHR 0xD6,
      CHR 0xD8, CHR 0xD9, CHR 0xDA, CHR 0xDB, CHR 0xDC, CHR 0xDD, CHR 0xDE]"

definition lower_latin :: string where
  "lower_latin =
     [CHR 0xE0, CHR 0xE1, CHR 0xE2, CHR 0xE3, CHR 0xE4, CHR 0xE5, CHR 0xE6, CHR 0xE7,
      CHR 0xE8, CHR 0xE9, CHR 0xEA, CHR 0xEB, CHR 0xEC, CHR 0xED, CHR 0xEE, CHR 0xEF,
      CHR 0xF0, CHR 0xF1, CHR 0xF2, CHR 0xF3, CHR 0xF4, CHR 0xF5, CHR 0xF6,
      CHR 0xF8, CHR 0xF9, CHR 0xFA, CHR 0xFB, CHR 0xFC, CHR 0xFD, CHR 0xFE]"

definition lower_char :: "char \<Rightarrow> char" where
  "lower_char c =
     (case map_of (zip (upper_letters @ upper_latin) (lower_letters @ lower_latin)) c of
        Some d \<Rightarrow> d | None \<Rightarrow> c)"

definition upper_char :: "char \<Rightarrow> char" where
  "upper_char c =
     (case map_of (zip (lower_letters @ lower_latin) (upper_letters @ upper_latin)) c of
        Some d \<Rightarrow> d | None \<Rightarrow> c)"

text \<open>\<^verbatim>\<open>s.toLowerCase()\<close> and \<^verbatim>\<open>s.toUpperCase()\<close>\<close>

definition toLowerCase :: "string \<Rightarrow> string" where
  "toLowerCase s = map lower_char s"

definition toUpperCase :: "string \<Rightarrow> string" where
  "toUpperCase s = concat (map (\<lambda>c. if c = CHR 0xDF then ''SS'' else [upper_char c]) s)"

text \<open>\<^verbatim>\<open>s.trim()\<close>\<close>

definition trim :: "string \<Rightarrow> string" where
  "trim s = rev (dropWhile is_space (rev (dropWhile is_space s)))"

text \<open>\<^verbatim>\<open>s.replace(/\s+/g, ' ')\<close>: every maximal run of white space becomes one space.\<close>

function collapse_ws :: "string \<Rightarrow> string" where
  "collapse_ws [] = []"
| "collapse_ws (c # cs) =
     (if is_space c then CHR '' '' # collapse_ws (dropWhile is_space cs)
      else c # collapse_ws cs)"
  by pat_completeness auto
termination
  by (relation "measure length") (auto simp: length_dropWhile_le less_Suc_eq_le)

text \<open>\<^verbatim>\<open>s.split(sep)\<close> for a one-character separator: the pieces between the
  separators, empty pieces included; the empty string gives one empty piece.\<close>

fun split_on :: "char \<Rightarrow> string \<Rightarrow> string list" where
  "split_on sep [] = [[]]"
| "split_on sep (c # cs) =
     (case split_on sep cs of
        [] \<Rightarrow> [[c]]
      | p # ps \<Rightarrow> if c = sep then [] # p # ps else (c # p) # ps)"

text \<open>\<^verbatim>\<open>parts.join(' ')\<close>\<close>

fun join_space :: "string list \<Rightarrow> string" where
  "join_space [] = []"
| "join_space [p] = p"
| "join_space (p # q # ps) = p @ CHR '' '' # join_space (q # ps)"

text \<open>\<^verbatim>\<open>s.includes(t)\<close>, \<^verbatim>\<open>s.startsWith(t)\<close> and \<^verbatim>\<open>s.endsWith(t)\<close>\<close>

fun str_includes :: "string \<Rightarrow> string \<Rightarrow> bool" where
  "str_includes [] t = (t = [])"
| "str_includes (c # cs) t = (take (length t) (c # cs) = t \<or> str_includes cs t)"

definition startsWith :: "string \<Rightarrow> string \<Rightarrow> bool" where
  "startsWith s t \<longleftrightarrow> take (length t) s = t"

definition endsWith :: "string \<Rightarrow> string \<Rightarrow> bool" where
  "endsWith s t \<longleftrightarrow> length t \<le> length s \<and> drop (length s - length t) s = t"

subsection \<open>Name normalizer\<close>

text \<open>\<^verbatim>\<open>s.replace(/\([^)]*\)/g, '')\<close>: an opening parenthesis matches together with
  everything up to the first closing parenthesis behind it; without a closing
  parenthesis behind it, it stays.\<close>

function strip_parens :: "string \<Rightarrow> string" where
  "strip_parens [] = []"
| "strip_parens (c # cs) =
     (if c = CHR ''(''
      then (case dropWhile (\<lambda>d. d \<noteq> CHR '')'') cs of
              [] \<Rightarrow> c # strip_parens cs
            | _ # rest \<Rightarrow> strip_parens rest)
      else c # strip_parens cs)"
  by pat_completeness auto
termination
proof (relation "measure length", goal_cases)
  case 1
  show ?case by simp
next
  case (2 c cs)
  show ?case by simp
next
  case (3 c cs x rest)
  have "length (dropWhile (\<lambda>d. d \<noteq> CHR '')'') cs) \<le> length cs"
    by (rule length_dropWhile_le)
  with 3 show ?case by simp
next
  case (4 c cs)
  show ?case by simp
qed

text \<open>The pattern \<^verbatim>\<open>,?\s*[^,\d]*\d{3,4}\b\<close> tried at the head of \<open>s\<close>. An optional comma,
  then the longest run of characters that are neither comma nor digit (white space is
  among them, and a shorter run is followed by no digit), then three or four digits at
  a word boundary: the run of digits is three or four long and no word character
  follows. The result is what is left behind the match.\<close>

definition match_citation :: "string \<Rightarrow> string option" where
  "match_citation s =
     (let s1 = (case s of c # cs \<Rightarrow> if c = CHR '','' then cs else s | [] \<Rightarrow> s);
          s2 = dropWhile (\<lambda>c. c \<noteq> CHR '','' \<and> \<not> is_digit c) s1;
          ds = takeWhile is_digit s2;
          rest = dropWhile is_digit s2
      in if (length ds = 3 \<or> length ds = 4) \<and> (case rest of [] \<Rightarrow> True | c # _ \<Rightarrow> \<not> is_word c)
         then Some rest else None)"

text \<open>\<^verbatim>\<open>s.replace(/,?\s*[^,\d]*\d{3,4}\b/g, '')\<close>\<close>

function strip_citations :: "string \<Rightarrow> string" where
  "strip_citations [] = []"
| "strip_citations (c # cs) =
     (case match_citation (c # cs) of
        Some rest \<Rightarrow> strip_citations rest
      | None \<Rightarrow> c # strip_citations cs)"
  by pat_completeness auto
termination
proof (relation "measure length", goal_cases)
  case 1
  show ?case by simp
next
  case (2 c cs)
  show ?case by simp
next
  case (3 c cs rest)
  define s1 where "s1 = (if c = CHR '','' then cs else c # cs)"
  define s2 where "s2 = dropWhile (\<lambda>c. c \<noteq> CHR '','' \<and> \<not> is_digit c) s1"
  from 3 have r: "rest = dropWhile is_digit s2" and l: "3 \<le> length (takeWhile is_digit s2)"
    by (auto simp: match_citation_def Let_def s1_def s2_def split: if_splits)
  have "length (takeWhile is_digit s2) + length rest = length s2"
    unfolding r by (metis length_append takeWhile_dropWhile_id)
  with l have "length rest < length s2" by simp
  also have "length s2 \<le> length s1" unfolding s2_def by (rule length_dropWhile_le)
  also have "length s1 \<le> length (c # cs)" by (simp add: s1_def)
  finally show ?case by simp
qed

text \<open>The alternatives of \<^verbatim>\<open>/\b(sp|spp|cf|aff|var|subsp|forma?)\b\.?/gi\<close>. Between two word
  boundaries the pattern matches a whole word, whatever the case of its letters.\<close>

definition shorthand_tokens :: "string list" where
  "shorthand_tokens = [''sp'', ''spp'', ''cf'', ''aff'', ''var'', ''subsp'', ''forma'', ''form'']"

text \<open>\<^verbatim>\<open>s.replace(/\b(sp|spp|cf|aff|var|subsp|forma?)\b\.?/gi, '')\<close>. The flag says whether
  the character before the head is a word character.\<close>

function strip_shorthand :: "bool \<Rightarrow> string \<Rightarrow> string" where
  "strip_shorthand prev_word [] = []"
| "strip_shorthand prev_word (c # cs) =
     (if \<not> prev_word \<and> is_word c \<and> toLowerCase (takeWhile is_word (c # cs)) \<in> set shorthand_tokens
      then (case dropWhile is_word cs of
              [] \<Rightarrow> []
            | d # rest \<Rightarrow> if d = CHR ''.'' then strip_shorthand False rest
                         else strip_shorthand True (d # rest))
      else c # strip_shorthand (is_word c) cs)"
  by pat_completeness auto
termination
proof (relation "measure (\<lambda>(p, s). length s)", goal_cases)
  case 1
  show ?case by simp
next
  case (2 prev_word c cs d rest)
  have "length (dropWhile is_word cs) \<le> length cs" by (rule length_dropWhile_le)
  with 2 show ?case by simp
next
  case (3 prev_word c cs d rest)
  have "length (dropWhile is_word cs) \<le> length cs" by (rule length_dropWhile_le)
  with 3 show ?case by simp
next
  case (4 prev_word c cs)
  show ?case by simp
qed

text \<open>\<^verbatim>\<open>s.replace(/[,\-\.\s]+$/g, '')\<close>: the longest run of such characters at the end.\<close>

definition strip_trailing_punct :: "string \<Rightarrow> string" where
  "strip_trailing_punct s =
     rev (dropWhile (\<lambda>c. c \<in> set '',-.'' \<or> is_space c) (rev s))"

text \<open>The method \<^verbatim>\<open>sanitizeDisplayName\<close>. The four quotation marks of the next-to-last
  character class lie outside the code units of the model, so that replacement changes
  nothing here.\<close>

definition sanitizeDisplayName :: "string \<Rightarrow> string" where
  "sanitizeDisplayName name =
     (if name = [] then []
      else
        let cleaned = trim (collapse_ws name);
            cleaned = strip_parens cleaned;
            cleaned = strip_citations cleaned;
            cleaned = strip_shorthand False cleaned;
            cleaned = filter (\<lambda>c. \<not> is_digit c) cleaned;
            cleaned = filter (\<lambda>c. is_word c \<or> is_space c \<or> c \<in> set [CHR 0x27, CHR ''-'', CHR ''.'']) cleaned;
            cleaned = trim (collapse_ws (strip_trailing_punct cleaned))
        in if cleaned = [] \<or> length cleaned < 2 then [] else cleaned)"

text \<open>The pattern \<^verbatim>\<open>,?\s*\d{3,4}\<close> tried at the head of \<open>s\<close>: an optional comma, white space,
  then four digits, or three when there is no fourth.\<close>

definition match_year :: "string \<Rightarrow> string option" where
  "match_year s =
     (let s1 = (case s of c # cs \<Rightarrow> if c = CHR '','' then cs else s | [] \<Rightarrow> s);
          s2 = dropWhile is_space s1;
          ds = takeWhile is_digit s2
      in if 3 \<le> length ds then Some (drop (min 4 (length ds)) s2) else None)"

text \<open>\<^verbatim>\<open>s.replace(/,?\s*\d{3,4}/g, '')\<close>\<close>

function strip_years :: "string \<Rightarrow> string" where
  "strip_years [] = []"
| "strip_years (c # cs) =
     (case match_year (c # cs) of
        Some rest \<Rightarrow> strip_years rest
      | None \<Rightarrow> c # strip_years cs)"
  by pat_completeness auto
termination
proof (relation "measure length", goal_cases)
  case 1
  show ?case by simp
next
  case (2 c cs)
  show ?case by simp
next
  case (3 c cs rest)
  define s1 where "s1 = (if c = CHR '','' then cs else c # cs)"
  define s2 where "s2 = dropWhile is_space s1"
  from 3 have r: "rest = drop (min 4 (length (takeWhile is_digit s2))) s2"
    and l: "3 \<le> length (takeWhile is_digit s2)"
    by (auto simp: match_year_def Let_def s1_def s2_def split: if_splits)
  have "length (takeWhile is_digit s2) \<le> length s2" by (rule length_takeWhile_le)
  with l r have "length rest < length s2" by simp
  also have "length s2 \<le> length s1" unfolding s2_def by (rule length_dropWhile_le)
  also have "length s1 \<le> length (c # cs)" by (simp add: s1_def)
  finally show ?case by simp
qed

text \<open>The method \<^verbatim>\<open>extractBinomial\<close>.\<close>

definition extractBinomial :: "string \<Rightarrow> string" where
  "extractBinomial scientific =
     (if scientific = [] then []
      else
        let s = strip_years (strip_parens scientific);
            s = trim (collapse_ws s);
            parts = filter (\<lambda>p. p \<noteq> []) (split_on CHR '' '' s)
        in (case parts of
              p0 # p1 # _ \<Rightarrow> p0 @ CHR '' '' # p1
            | _ \<Rightarrow> []))"

text \<open>The maximal runs of word characters of a string, from left to right.\<close>

function word_runs :: "string \<Rightarrow> string list" where
  "word_runs [] = []"
| "word_runs (c # cs) =
     (if is_word c then takeWhile is_word (c # cs) # word_runs (dropWhile is_word cs)
      else word_runs cs)"
  by pat_completeness auto
termination
  by (relation "measure length") (auto simp: length_dropWhile_le less_Suc_eq_le)

text \<open>The alternatives of \<^verbatim>\<open>/\b(sp|spp|species|unidentified|unknown|indet|gen\.?)\b/i\<close>.
  Each alternative stands between two word boundaries, so the pattern is found exactly
  when some whole word of the string is one of them; the optional full stop behind
  \<^verbatim>\<open>gen\<close> changes nothing, since a full stop ends the word.\<close>

definition placeholder_tokens :: "string list" where
  "placeholder_tokens =
     [''sp'', ''spp'', ''species'', ''unidentified'', ''unknown'', ''indet'', ''gen'']"

text \<open>The method \<^verbatim>\<open>isValidCommonName\<close>.\<close>

definition isValidCommonName :: "string \<Rightarrow> bool" where
  "isValidCommonName name =
     (if name = [] then False
      else
        let s = trim name
        in if length s < 3 then False
           else if \<exists>c \<in> set s. is_digit c then False
           else if \<exists>w \<in> set (word_runs s). toLowerCase w \<in> set placeholder_tokens then False
           else True)"

text \<open>The method \<^verbatim>\<open>singularize\<close>.\<close>

definition singularize :: "string \<Rightarrow> string" where
  "singularize className =
     (if className = [] then className
      else
        let lower = toLowerCase className
        in if lower = ''fish'' then ''fish''
           else if endsWith lower ''s'' then butlast lower
           else lower)"

text \<open>The method \<^verbatim>\<open>capitalizeWords\<close>; \<open>capitalize\<close> is the function it maps over the
  words: \<^verbatim>\<open>word.charAt(0).toUpperCase() + word.slice(1).toLowerCase()\<close>.\<close>

definition capitalize :: "string \<Rightarrow> string" where
  "capitalize word = toUpperCase (take 1 word) @ toLowerCase (drop 1 word)"

definition capitalizeWords :: "string \<Rightarrow> string" where
  "capitalizeWords str = join_space (map capitalize (split_on CHR '' '' str))"

text \<open>The method \<^verbatim>\<open>formatDisplayForUI\<close>.\<close>

definition formatDisplayForUI :: "string \<Rightarrow> string \<Rightarrow> string" where
  "formatDisplayForUI name scientific =
     (if isValidCommonName name then capitalizeWords name
      else if scientific \<noteq> [] then
        (case filter (\<lambda>p. p \<noteq> []) (split_on CHR '' '' scientific) of
           p0 # p1 # _ \<Rightarrow> capitalize p0 @ CHR '' '' # toLowerCase p1
         | _ \<Rightarrow> capitalize scientific)
      else if name \<noteq> [] then capitalizeWords name
      else ''Unknown Species'')"

text \<open>The method \<^verbatim>\<open>inferHabitat\<close>.\<close>

definition habitat_defaults :: "(string \<times> string) list" where
  "habitat_defaults =
     [(''birds'', ''woodland''), (''mammals'', ''terrestrial''), (''fish'', ''freshwater''),
      (''reptiles'', ''terrestrial''), (''amphibians'', ''wetland''), (''insects'', ''terrestrial'')]"

definition inferHabitat :: "string \<Rightarrow> string \<Rightarrow> string" where
  "inferHabitat speciesName animalType =
     (let name = toLowerCase speciesName
      in if str_includes name ''fish'' \<or> str_includes name ''salmon'' \<or> str_includes name ''trout'' \<or>
            str_includes name ''frog'' \<or> str_includes name ''turtle'' \<or> str_includes name ''duck''
         then ''aquatic''
         else if str_includes name ''wood'' \<or> str_includes name ''tree'' \<or> str_includes name ''forest''
         then ''forest''
         else if str_includes name ''house'' \<or> str_includes name ''city'' \<or> str_includes name ''urban''
         then ''urban''
         else (case map_of habitat_defaults animalType of
                 Some h \<Rightarrow> if h = [] then ''terrestrial'' else h
               | None \<Rightarrow> ''terrestrial''))"

subsection \<open>Data model\<close>

text \<open>A taxonomic class of the registry \<^verbatim>\<open>this.taxonomicClasses\<close>.\<close>

record taxonomic_class =
  cls_name :: string
  cls_key :: nat
  cls_displayName :: string

definition taxonomicClasses :: "taxonomic_class list" where
  "taxonomicClasses =
     [\<lparr>cls_name = ''birds'', cls_key = 212, cls_displayName = ''Birds''\<rparr>,
      \<lparr>cls_name = ''mammals'', cls_key = 359, cls_displayName = ''Mammals''\<rparr>,
      \<lparr>cls_name = ''fish'', cls_key = 204, cls_displayName = ''Fish''\<rparr>,
      \<lparr>cls_name = ''reptiles'', cls_key = 358, cls_displayName = ''Reptiles''\<rparr>,
      \<lparr>cls_name = ''amphibians'', cls_key = 131, cls_displayName = ''Amphibians''\<rparr>]"

text \<open>A species object as the service builds it. A field that an object does not have
  is the empty string, and \<open>lastUsed\<close> is \<open>0\<close> then: the code tests every field for
  truthiness only (\<^verbatim>\<open>src.lastUsed || 0\<close>, \<^verbatim>\<open>!s.lastUsed\<close>, \<^verbatim>\<open>src.type ? ... : ...\<close>), and
  no object of the service carries the fields \<^verbatim>\<open>commonName\<close> and \<^verbatim>\<open>species\<close> that
  \<^verbatim>\<open>cacheSpecies\<close> and \<^verbatim>\<open>selectSpecies\<close> fall back to.\<close>

record species =
  name :: string
  scientificName :: string
  type :: string
  habitat :: string
  source :: string
  lastUsed :: int

text \<open>A cache entry, the value stored by \<^verbatim>\<open>this.cache.set\<close>.\<close>

record cache_entry =
  entry_species :: "species list"
  entry_timestamp :: int
  entry_location :: "real \<times> real"
  seededByGBIF :: bool

record cache_stats =
  hits :: nat
  misses :: nat
  evictions :: nat

text \<open>Why the circuit was opened last: the text of \<^verbatim>\<open>lastOpenedReason\<close>, which for a rate
  limit quotes the \<^verbatim>\<open>retry-after\<close> header.\<close>

datatype open_reason = RateLimit "string option" | Repeated5xx

text \<open>The circuit breaker \<^verbatim>\<open>this.gbifCircuit\<close>. \<open>openUntil\<close> is a JavaScript number that
  can be \<^verbatim>\<open>NaN\<close> (when the \<^verbatim>\<open>retry-after\<close> header holds no number): \<open>None\<close> is \<^verbatim>\<open>NaN\<close>.\<close>

record gbif_circuit =
  is_open :: bool
  openUntil :: "int option"
  lastOpenedReason :: "open_reason option"
  consecutiveFailures :: nat

text \<open>The diagnostic \<^verbatim>\<open>this.lastGBIFError\<close>: its status when it has one, and which of the
  failure paths wrote it.\<close>

datatype gbif_error =
    CircuitOpenError
  | RateLimitedError "int option"
  | UnexpectedContent int
  | NonOkStatus int
  | InvalidJson int
  | FetchException

text \<open>The state of the service object. \<open>cache\<close> is the JavaScript \<^verbatim>\<open>Map\<close>: its keys in
  insertion order, each key once.\<close>

record service =
  cache :: "(string \<times> cache_entry) list"
  cacheStats :: cache_stats
  gbifCircuit :: gbif_circuit
  lastGBIFError :: "gbif_error option"
  noRepeatDays :: int

definition maxCacheSize :: nat where
  "maxCacheSize = 200"

text \<open>The service as its constructor leaves it. \<open>days\<close> is what the constructor reads from
  the environment variable \<^verbatim>\<open>SPECIES_NO_REPEAT_DAYS\<close>, \<open>None\<close> when that is no number.\<close>

definition new_service :: "int option \<Rightarrow> service" where
  "new_service days =
     \<lparr>cache = [],
      cacheStats = \<lparr>hits = 0, misses = 0, evictions = 0\<rparr>,
      gbifCircuit = \<lparr>is_open = False, openUntil = Some 0, lastOpenedReason = None,
                     consecutiveFailures = 0\<rparr>,
      lastGBIFError = None,
      noRepeatDays = (case days of Some d \<Rightarrow> if 0 < d then d else 2 | None \<Rightarrow> 2)\<rparr>"

subsection \<open>Static tables\<close>

definition globalFallbacks :: "(string \<times> string list) list" where
  "globalFallbacks =
     [(''birds'', [''House Sparrow'', ''Rock Dove'', ''European Starling'', ''House Finch'',
                   ''American Robin'']),
      (''mammals'', [''House Mouse'', ''Brown Rat'', ''Domestic Cat'', ''Domestic Dog'',
                     ''White-tailed Deer'']),
      (''fish'', [''Goldfish'', ''Carp'', ''Bass'', ''Trout'', ''Catfish'']),
      (''reptiles'', [''House Gecko'', ''Green Anole'', ''Garter Snake'', ''Box Turtle'',
                      ''Fence Lizard'']),
      (''amphibians'', [''American Bullfrog'', ''Green Frog'', ''Spring Peeper'',
                        ''Red-eared Slider'', ''Wood Frog''])]"

definition scientificToCommon :: "(string \<times> string) list" where
  "scientificToCommon =
     [(''Passer domesticus'', ''House Sparrow''),
      (''Columba livia'', ''Rock Dove''),
      (''Sturnus vulgaris'', ''European Starling''),
      (''Haemorhous mexicanus'', ''House Finch''),
      (''Turdus migratorius'', ''American Robin''),
      (''Corvus brachyrhynchos'', ''American Crow''),
      (''Poecile atricapillus'', ''Black-capped Chickadee''),
      (''Sitta carolinensis'', ''White-breasted Nuthatch''),
      (''Falco sparverius'', ''American Kestrel''),
      (''Buteo jamaicensis'', ''Red-tailed Hawk''),
      (''Mus musculus'', ''House Mouse''),
      (''Rattus norvegicus'', ''Brown Rat''),
      (''Felis catus'', ''Domestic Cat''),
      (''Canis lupus'', ''Gray Wolf''),
      (''Odocoileus virginianus'', ''White-tailed Deer''),
      (''Procyon lotor'', ''Raccoon''),
      (''Sciurus carolinensis'', ''Eastern Gray Squirrel''),
      (''Tamias striatus'', ''Eastern Chipmunk''),
      (''Anolis carolinensis'', ''Green Anole''),
      (''Sceloporus undulatus'', ''Fence Lizard''),
      (''Thamnophis sirtalis'', ''Garter Snake''),
      (''Terrapene carolina'', ''Box Turtle''),
      (''Lithobates catesbeianus'', ''American Bullfrog''),
      (''Lithobates clamitans'', ''Green Frog''),
      (''Pseudacris crucifer'', ''Spring Peeper''),
      (''Anaxyrus americanus'', ''American Toad''),
      (''Carassius auratus'', ''Goldfish''),
      (''Cyprinus carpio'', ''Common Carp''),
      (''Micropterus salmoides'', ''Largemouth Bass''),
      (''Salmo trutta'', ''Brown Trout'')]"

definition regionalFallbacks :: "(string \<times> (string \<times> string list) list) list" where
  "regionalFallbacks =
     [(''california'',
        [(''birds'', [''Anna'' @ [CHR 0x27] @ ''s Hummingbird'', ''California Scrub-Jay'',
                      ''Western Bluebird'', ''Red-tailed Hawk'']),
         (''mammals'', [''California Ground Squirrel'', ''Coyote'', ''Mule Deer'', ''Bobcat'']),
         (''reptiles'', [''Western Fence Lizard'', ''Alligator Lizard'', ''Gopher Snake'',
                         ''Rattlesnake''])]),
      (''pacific_northwest'',
        [(''birds'', [''Steller'' @ [CHR 0x27] @ ''s Jay'', ''Dark-eyed Junco'', ''Pacific Wren'',
                      ''Varied Thrush'']),
         (''mammals'', [''Douglas Squirrel'', ''Black Bear'', ''Elk'', ''Raccoon'']),
         (''fish'', [''Chinook Salmon'', ''Coho Salmon'', ''Steelhead Trout'', ''Pacific Cod''])]),
      (''eastern_forests'',
        [(''birds'', [''Blue Jay'', ''Cardinal'', ''Wood Thrush'', ''Pileated Woodpecker'']),
         (''mammals'', [''Eastern Gray Squirrel'', ''White-tailed Deer'', ''Black Bear'',
                        ''Raccoon'']),
         (''amphibians'', [''Wood Frog'', ''Spring Peeper'', ''Red-backed Salamander'',
                           ''American Toad''])])]"

subsection \<open>Location-clustered cache\<close>

text \<open>Numbers as template strings print them. \<open>show_nat\<close> is the decimal numeral of a
  natural number; \<open>show_hundredths n\<close> is the numeral of \<open>n / 100\<close>, with at most two
  decimals and no trailing zero, as JavaScript prints such a number (below \<open>10\<^sup>2\<^sup>1\<close>).\<close>

definition digit_char :: "nat \<Rightarrow> char" where
  "digit_char d = ''0123456789'' ! (d mod 10)"

function show_nat :: "nat \<Rightarrow> string" where
  "show_nat n = (if n < 10 then [digit_char n] else show_nat (n div 10) @ [digit_char (n mod 10)])"
  by pat_completeness auto
termination
  by (relation "measure id") auto

definition show_hundredths :: "int \<Rightarrow> string" where
  "show_hundredths n =
     (let a = nat \<bar>n\<bar>; f = a mod 100
      in (if n < 0 then ''-'' else []) @ show_nat (a div 100) @
         (if f = 0 then []
          else if f mod 10 = 0 then [CHR ''.'', digit_char (f div 10)]
          else [CHR ''.'', digit_char (f div 10), digit_char (f mod 10)]))"

text \<open>\<^verbatim>\<open>Math.round(x * 100)\<close>, in exact arithmetic: the rounding errors of the
  floating-point product are not modelled.\<close>

definition round_hundredths :: "real \<Rightarrow> int" where
  "round_hundredths x = \<lfloor>x * 100 + 1 / 2\<rfloor>"

text \<open>The method \<^verbatim>\<open>generateLocationKey\<close>.\<close>

definition generateLocationKey :: "real \<Rightarrow> real \<Rightarrow> taxonomic_class \<Rightarrow> string" where
  "generateLocationKey latitude longitude taxonomicClass =
     show_hundredths (round_hundredths latitude) @ ''_'' @
     show_hundredths (round_hundredths longitude) @ ''_'' @ cls_name taxonomicClass"

text \<open>\<^verbatim>\<open>Map.prototype.set\<close> and \<^verbatim>\<open>Map.prototype.delete\<close> on the list of entries: a key that
  is present keeps its place, a new key goes to the end.\<close>

fun map_set :: "'k \<Rightarrow> 'v \<Rightarrow> ('k \<times> 'v) list \<Rightarrow> ('k \<times> 'v) list" where
  "map_set k v [] = [(k, v)]"
| "map_set k v (p # ps) = (if fst p = k then (k, v) # ps else p # map_set k v ps)"

definition map_delete :: "'k \<Rightarrow> ('k \<times> 'v) list \<Rightarrow> ('k \<times> 'v) list" where
  "map_delete k m = filter (\<lambda>p. fst p \<noteq> k) m"

text \<open>The method \<^verbatim>\<open>getCachedEntry\<close>.\<close>

definition getCachedEntry :: "service \<Rightarrow> real \<Rightarrow> real \<Rightarrow> taxonomic_class \<Rightarrow> cache_entry option" where
  "getCachedEntry s latitude longitude taxonomicClass =
     map_of (cache s) (generateLocationKey latitude longitude taxonomicClass)"

text \<open>The keys of one class, \<^verbatim>\<open>classKeys\<close> in \<^verbatim>\<open>cacheSpecies\<close>.\<close>

definition classKeys :: "(string \<times> cache_entry) list \<Rightarrow> string \<Rightarrow> string list" where
  "classKeys m className = filter (\<lambda>key. endsWith key (''_'' @ className)) (map fst m)"

text \<open>The function that \<^verbatim>\<open>cacheSpecies\<close> maps over the species it is given.\<close>

definition normalize_species :: "taxonomic_class \<Rightarrow> species \<Rightarrow> species" where
  "normalize_species taxonomicClass src =
     (let rawName = name src;
          cleaned = sanitizeDisplayName rawName;
          binomial = extractBinomial (scientificName src);
          cleaned = (if \<not> isValidCommonName cleaned
                     then (if binomial \<noteq> [] then binomial else cleaned) else cleaned);
          capitalized = capitalizeWords cleaned
      in src\<lparr>name := (if capitalized \<noteq> [] then capitalized else name src),
              scientificName := (if binomial \<noteq> [] then binomial else scientificName src),
              type := (if type src \<noteq> [] then singularize (type src)
                       else singularize (cls_name taxonomicClass))\<rparr>)"

text \<open>The entry that \<^verbatim>\<open>cacheSpecies\<close> stores: the normalized species, the time, the
  place, and whether one of the species came from GBIF.\<close>

definition new_cache_entry ::
  "int \<Rightarrow> real \<Rightarrow> real \<Rightarrow> taxonomic_class \<Rightarrow> species list \<Rightarrow> cache_entry" where
  "new_cache_entry now latitude longitude taxonomicClass spp =
     (let normalized = map (normalize_species taxonomicClass) spp
      in \<lparr>entry_species = normalized, entry_timestamp = now,
          entry_location = (latitude, longitude),
          seededByGBIF = (\<exists>x \<in> set normalized.
                            source x \<noteq> [] \<and> startsWith (toLowerCase (source x)) ''gbif'')\<rparr>)"

text \<open>The method \<^verbatim>\<open>cacheSpecies\<close>; \<open>now\<close> is what \<^verbatim>\<open>Date.now()\<close> returns.\<close>

definition cacheSpecies ::
  "int \<Rightarrow> service \<Rightarrow> real \<Rightarrow> real \<Rightarrow> taxonomic_class \<Rightarrow> species list \<Rightarrow> service" where
  "cacheSpecies now s latitude longitude taxonomicClass spp =
     (let cacheKey = generateLocationKey latitude longitude taxonomicClass;
          keys = classKeys (cache s) (cls_name taxonomicClass);
          s1 = (if maxCacheSize \<le> length keys
                then s\<lparr>cache := (case keys of oldestKey # _ \<Rightarrow> map_delete oldestKey (cache s)
                                   | [] \<Rightarrow> cache s),
                       cacheStats := (cacheStats s)\<lparr>evictions := evictions (cacheStats s) + 1\<rparr>\<rparr>
                else s)
      in s1\<lparr>cache := map_set cacheKey
                 (new_cache_entry now latitude longitude taxonomicClass spp) (cache s1)\<rparr>)"

text \<open>The entries of one class, in insertion order, and the two facts about the cache
  that every method keeps: each key is there once (as in every \<^verbatim>\<open>Map\<close>), and no class of
  the registry has more than \<open>maxCacheSize\<close> keys.\<close>

definition class_entries ::
  "(string \<times> cache_entry) list \<Rightarrow> string \<Rightarrow> (string \<times> cache_entry) list" where
  "class_entries m className = filter (\<lambda>p. endsWith (fst p) (''_'' @ className)) m"

definition cache_ok :: "service \<Rightarrow> bool" where
  "cache_ok s \<longleftrightarrow>
     distinct (map fst (cache s)) \<and>
     (\<forall>cls \<in> set taxonomicClasses. length (classKeys (cache s) (cls_name cls)) \<le> maxCacheSize)"

subsection \<open>The world outside the service\<close>

text \<open>A vernacular entry of a GBIF record: \<^verbatim>\<open>{ vernacularName, language, lang }\<close>, each
  field a string when it is there.\<close>

record vernacular =
  v_name :: "string option"
  v_language :: "string option"
  v_lang :: "string option"

text \<open>The field \<^verbatim>\<open>vernacularName\<close> of a record is a string in the occurrence format and
  an array of entries in some responses.\<close>

datatype legacy_vernacular =
    NoVernacular
  | VernacularString string
  | VernacularArray "vernacular list"

text \<open>A record of \<^verbatim>\<open>data.results\<close>, with the fields the code reads.\<close>

record gbif_record =
  rec_key :: "int option"
  rec_vernacularNames :: "vernacular list option"
  rec_vernacularName :: legacy_vernacular
  rec_commonName :: "string option"
  rec_scientificName :: "string option"
  rec_canonicalName :: "string option"

text \<open>What \<^verbatim>\<open>JSON.parse\<close> makes of a body that is JSON: \<open>Results rs\<close> is an object whose
  \<^verbatim>\<open>results\<close> are the array \<open>rs\<close> of records (\<open>None\<close>: the object has no \<^verbatim>\<open>results\<close>);
  \<open>IllTyped\<close> is any value on which the code that reads the results raises a
  \<^verbatim>\<open>TypeError\<close> (\<^verbatim>\<open>null\<close>, or \<^verbatim>\<open>results\<close> that are no array).\<close>

datatype payload = Results "gbif_record list option" | IllTyped

text \<open>An HTTP response of the species search: the status, the two headers the code
  reads, whether the trimmed body starts with \<^verbatim>\<open><\<close>, and the parsed body (\<open>None\<close>:
  \<^verbatim>\<open>JSON.parse\<close> raises).\<close>

record http_response =
  status :: int
  retry_after :: "string option"
  content_type :: "string option"
  body_starts_lt :: bool
  body_json :: "payload option"

text \<open>The outcome of \<^verbatim>\<open>await fetch(...)\<close> followed by \<^verbatim>\<open>await response.text()\<close>: a
  rejected promise or a response.\<close>

datatype fetch_result = Rejected | Response http_response

text \<open>The outcome of a request to the vernacular-names endpoint: the request or the
  reading of its JSON body raises, the status is not ok, or the body is an object with
  these \<^verbatim>\<open>results\<close>.\<close>

datatype vernacular_result = VRejected | VNotOk | VResults "vernacular list option"

text \<open>The environment of a run: the outcome and the duration of the \<open>n\<close>-th network request,
  and the \<open>n\<close>-th value of \<^verbatim>\<open>Math.random()\<close>.\<close>

record env =
  search_response :: "nat \<Rightarrow> fetch_result"
  vernacular_response :: "nat \<Rightarrow> vernacular_result"
  latency :: "nat \<Rightarrow> int"
  random :: "nat \<Rightarrow> real"

text \<open>The world as the service sees it: the clock read by \<^verbatim>\<open>Date.now()\<close>, the number of
  network requests made so far, the number of random values drawn so far.\<close>

record world =
  clock :: int
  io_count :: nat
  rand_count :: nat

definition sleep :: "int \<Rightarrow> world \<Rightarrow> world" where
  "sleep ms w = w\<lparr>clock := clock w + ms\<rparr>"

definition network_request :: "env \<Rightarrow> world \<Rightarrow> nat \<times> world" where
  "network_request e w =
     (io_count w, w\<lparr>clock := clock w + latency e (io_count w), io_count := io_count w + 1\<rparr>)"

definition math_random :: "env \<Rightarrow> world \<Rightarrow> real \<times> world" where
  "math_random e w = (random e (rand_count w), w\<lparr>rand_count := rand_count w + 1\<rparr>)"

text \<open>\<^verbatim>\<open>parseInt(s, 10)\<close>: white space, a sign, then digits; \<open>None\<close> is \<^verbatim>\<open>NaN\<close>.\<close>

definition digits_value :: "string \<Rightarrow> int" where
  "digits_value ds = foldl (\<lambda>acc c. acc * 10 + int (length (takeWhile (\<lambda>d. d \<noteq> c) ''0123456789''))) 0 ds"

definition parseInt :: "string \<Rightarrow> int option" where
  "parseInt str =
     (let t = dropWhile is_space str;
          neg = (case t of c # _ \<Rightarrow> c = CHR ''-'' | [] \<Rightarrow> False);
          t1 = (case t of c # cs \<Rightarrow> if c = CHR ''-'' \<or> c = CHR ''+'' then cs else t | [] \<Rightarrow> t);
          ds = takeWhile is_digit t1
      in if ds = [] then None
         else Some (if neg then - digits_value ds else digits_value ds))"

subsection \<open>Upstream client with circuit breaker\<close>

definition truthy :: "string option \<Rightarrow> bool" where
  "truthy x = (case x of Some str \<Rightarrow> str \<noteq> [] | None \<Rightarrow> False)"

text \<open>\<^verbatim>\<open>x || ''\<close> for a field that is a string when it is there.\<close>

definition or_empty :: "string option \<Rightarrow> string" where
  "or_empty x = (case x of Some str \<Rightarrow> str | None \<Rightarrow> [])"

text \<open>A raw vernacular name that is there, sanitizes and validates gives the cleaned
  name: the step \<^verbatim>\<open>cleaned = sanitizeDisplayName(x); if (isValidCommonName(cleaned)) return
  cleaned\<close> that \<^verbatim>\<open>getBestVernacular\<close> repeats.\<close>

definition valid_cleaned :: "string option \<Rightarrow> string option" where
  "valid_cleaned raw =
     (case raw of
        None \<Rightarrow> None
      | Some r \<Rightarrow> if r = [] then None
                  else let cleaned = sanitizeDisplayName r
                       in if isValidCommonName cleaned then Some cleaned else None)"

fun first_some :: "'a option list \<Rightarrow> 'a option" where
  "first_some [] = None"
| "first_some (None # xs) = first_some xs"
| "first_some (Some x # xs) = Some x"

text \<open>\<^verbatim>\<open>array.find(p)\<close> followed by the read of the found entry's name.\<close>

definition found_name :: "(vernacular \<Rightarrow> bool) \<Rightarrow> vernacular list \<Rightarrow> string option" where
  "found_name p vs = (case find p vs of Some n \<Rightarrow> v_name n | None \<Rightarrow> None)"

text \<open>The method \<^verbatim>\<open>getBestVernacular\<close>: its attempts in the order of the code, the first
  that returns decides.\<close>

definition getBestVernacular :: "gbif_record \<Rightarrow> string" where
  "getBestVernacular r =
     (let from_names =
            (case rec_vernacularNames r of
               None \<Rightarrow> []
             | Some vs \<Rightarrow>
                 [valid_cleaned (found_name
                    (\<lambda>n. (v_language n = Some ''eng'' \<or> v_language n = Some ''en'') \<and> truthy (v_name n)) vs),
                  valid_cleaned (found_name
                    (\<lambda>n. truthy (v_language n) \<and>
                         toLowerCase (take 2 (or_empty (v_language n))) = ''en'' \<and>
                         truthy (v_name n)) vs),
                  first_some (map (\<lambda>n. valid_cleaned (v_name n)) vs)]);
          from_legacy =
            (case rec_vernacularName r of
               NoVernacular \<Rightarrow> []
             | VernacularString str \<Rightarrow> [valid_cleaned (Some str)]
             | VernacularArray vs \<Rightarrow>
                 [valid_cleaned (found_name
                    (\<lambda>n. (v_language n = Some ''en'' \<or> v_lang n = Some ''en'') \<and> truthy (v_name n)) vs),
                  first_some (map (\<lambda>n. valid_cleaned (v_name n)) vs)])
      in case first_some (from_names @ from_legacy @ [valid_cleaned (rec_commonName r)]) of
           Some cleaned \<Rightarrow> cleaned
         | None \<Rightarrow> [])"

text \<open>The template string \<^verbatim>\<open>GBIF-${radius}km\<close>.\<close>

definition gbif_source :: "nat \<Rightarrow> string" where
  "gbif_source radius = ''GBIF-'' @ show_nat radius @ ''km''"

text \<open>\<^verbatim>\<open>this.scientificToCommon[scientific]\<close>, when it is there.\<close>

definition curated_name :: "string \<Rightarrow> string" where
  "curated_name scientific = or_empty (map_of scientificToCommon scientific)"

text \<open>The request to the vernacular-names endpoint for a record without a vernacular
  name of its own: after a pause of 100 ms, the first English entry of the answer whose
  name sanitizes to a valid common name. Every failure leaves the display name empty.\<close>

definition fetch_vernacular :: "env \<Rightarrow> world \<Rightarrow> string \<times> world" where
  "fetch_vernacular e w =
     (let (n, w1) = network_request e (sleep 100 w)
      in (case vernacular_response e n of
            VResults (Some vs) \<Rightarrow>
              (case find (\<lambda>v. v_language v = Some ''eng'' \<and> truthy (v_name v) \<and>
                              isValidCommonName (sanitizeDisplayName (or_empty (v_name v)))) vs of
                 Some v \<Rightarrow> sanitizeDisplayName (or_empty (v_name v))
               | None \<Rightarrow> [])
          | _ \<Rightarrow> [],
          w1))"

text \<open>One turn of the loop over \<^verbatim>\<open>data.results\<close>; \<open>seen\<close> is the \<^verbatim>\<open>Map\<close> of the species
  found so far, keyed by the lower-case name.\<close>

definition process_record ::
  "env \<Rightarrow> taxonomic_class \<Rightarrow> nat \<Rightarrow> (string \<times> species) list \<times> world \<Rightarrow> gbif_record
     \<Rightarrow> (string \<times> species) list \<times> world" where
  "process_record e taxonomicClass radius acc r =
     (let (seen, w) = acc;
          display = getBestVernacular r;
          (display, w) =
            (if display = [] \<and> (case rec_key r of Some k \<Rightarrow> k \<noteq> 0 | None \<Rightarrow> False) \<and> length seen < 20
             then fetch_vernacular e w else (display, w));
          rawScientific = (if truthy (rec_scientificName r) then or_empty (rec_scientificName r)
                           else or_empty (rec_canonicalName r));
          scientific = extractBinomial rawScientific;
          display = (if display = [] \<and> scientific \<noteq> [] \<and> curated_name scientific \<noteq> []
                     then curated_name scientific else display);
          cleanedDisplay = (if display \<noteq> [] then sanitizeDisplayName display else []);
          cleanedDisplay = (if \<not> isValidCommonName cleanedDisplay then scientific else cleanedDisplay)
      in if cleanedDisplay = [] then (seen, w)
         else
           let key = toLowerCase cleanedDisplay
           in if key \<in> fst ` set seen then (seen, w)
              else (seen @ [(key,
                      \<lparr>name = capitalizeWords (sanitizeDisplayName cleanedDisplay),
                       scientificName = scientific,
                       type = singularize (cls_name taxonomicClass),
                       habitat = inferHabitat cleanedDisplay (cls_name taxonomicClass),
                       source = gbif_source radius,
                       lastUsed = 0\<rparr>)], w))"

text \<open>The function that \<^verbatim>\<open>fetchFromGBIF\<close> maps over the species found, before it drops
  those without a name.\<close>

definition post_process :: "taxonomic_class \<Rightarrow> nat \<Rightarrow> species \<Rightarrow> species" where
  "post_process taxonomicClass radius x =
     (let binomial = extractBinomial (if scientificName x \<noteq> [] then scientificName x else name x);
          cleanedCommon = sanitizeDisplayName (name x);
          cleanedCommon = (if \<not> isValidCommonName cleanedCommon \<and> binomial \<noteq> [] \<and>
                              curated_name binomial \<noteq> []
                           then curated_name binomial else cleanedCommon);
          finalDisplay = formatDisplayForUI cleanedCommon binomial
      in \<lparr>name = finalDisplay,
          scientificName = binomial,
          type = singularize (if type x \<noteq> [] then type x else cls_name taxonomicClass),
          habitat = (if habitat x \<noteq> [] then habitat x
                     else inferHabitat finalDisplay (cls_name taxonomicClass)),
          source = (if source x \<noteq> [] then source x else gbif_source radius),
          lastUsed = 0\<rparr>)"

text \<open>From the parsed results to the species that \<^verbatim>\<open>fetchFromGBIF\<close> returns.\<close>

definition process_results ::
  "env \<Rightarrow> taxonomic_class \<Rightarrow> nat \<Rightarrow> world \<Rightarrow> gbif_record list option \<Rightarrow> species list \<times> world" where
  "process_results e taxonomicClass radius w results =
     (let (seen, w1) =
            (case results of
               None \<Rightarrow> ([], w)
             | Some rs \<Rightarrow> foldl (process_record e taxonomicClass radius) ([], w) (take 50 rs));
          found = map (post_process taxonomicClass radius) (take 200 (map snd seen))
      in (filter (\<lambda>x. name x \<noteq> [] \<and> toLowerCase (name x) \<noteq> ''unknown species'') found, w1))"

definition maxRetries :: nat where
  "maxRetries = 3"

text \<open>What one turn of the retry loop of \<^verbatim>\<open>fetchFromGBIF\<close> ends in: a \<^verbatim>\<open>return\<close> of the
  method, or the next turn.\<close>

datatype attempt_outcome = Return "species list" service world | Continue service world

definition open_circuit :: "int option \<Rightarrow> open_reason \<Rightarrow> gbif_circuit \<Rightarrow> gbif_circuit" where
  "open_circuit until reason c = c\<lparr>is_open := True, openUntil := until, lastOpenedReason := Some reason\<rparr>"

definition add_failure :: "service \<Rightarrow> service" where
  "add_failure s =
     s\<lparr>gbifCircuit := (gbifCircuit s)\<lparr>consecutiveFailures := consecutiveFailures (gbifCircuit s) + 1\<rparr>\<rparr>"

text \<open>One turn of the retry loop, the body of \<^verbatim>\<open>for (let attempt = 1; ...)\<close>. The ecoregion
  that the turn computes first goes to the log only. A turn whose request is rejected,
  or whose parsed body is ill-typed, ends in the \<^verbatim>\<open>catch\<close> block.\<close>

definition gbif_attempt ::
  "env \<Rightarrow> taxonomic_class \<Rightarrow> nat \<Rightarrow> nat \<Rightarrow> service \<Rightarrow> world \<Rightarrow> attempt_outcome" where
  "gbif_attempt e taxonomicClass radius attempt s w =
     (let (n, w1) = network_request e (sleep 250 w);
          caught = Continue (s\<lparr>lastGBIFError := Some FetchException\<rparr>)
                     (if attempt < maxRetries then sleep (1000 * int attempt) w1 else w1)
      in case search_response e n of
           Rejected \<Rightarrow> caught
         | Response response \<Rightarrow>
             if status response = 429 then
               let retryAfter = retry_after response;
                   retryAfterMs = (if truthy retryAfter
                                   then map_option (\<lambda>v. v * 1000) (parseInt (or_empty retryAfter))
                                   else Some (1000 * 60));
                   openMs = map_option (\<lambda>ms. min (ms + 5000) (1000 * 60 * 10)) retryAfterMs;
                   s1 = s\<lparr>lastGBIFError := Some (RateLimitedError retryAfterMs)\<rparr>
               in Return []
                    (add_failure
                       (s1\<lparr>gbifCircuit :=
                             open_circuit (map_option (\<lambda>ms. clock w1 + ms) openMs)
                               (RateLimit retryAfter) (gbifCircuit s1)\<rparr>))
                    w1
             else if body_starts_lt response \<or>
                     \<not> str_includes (or_empty (content_type response)) ''application/json'' then
               Return [] (s\<lparr>lastGBIFError := Some (UnexpectedContent (status response))\<rparr>) w1
             else if \<not> (200 \<le> status response \<and> status response \<le> 299) then
               let s1 = s\<lparr>lastGBIFError := Some (NonOkStatus (status response))\<rparr>
               in if 500 \<le> status response \<and> attempt < maxRetries then
                    let waitMs = 1000 * 2 ^ attempt;
                        (r, w2) = math_random e w1;
                        jitter = \<lfloor>r * 250\<rfloor>
                    in Continue (add_failure s1) (sleep (waitMs + jitter) w2)
                  else if 2 \<le> consecutiveFailures (gbifCircuit s1) then
                    Return []
                      (s1\<lparr>gbifCircuit :=
                            open_circuit (Some (clock w1 + 1000 * 60 * 2)) Repeated5xx (gbifCircuit s1)\<rparr>)
                      w1
                  else Return [] s1 w1
             else
               (case body_json response of
                  None \<Rightarrow> Return [] (s\<lparr>lastGBIFError := Some (InvalidJson (status response))\<rparr>) w1
                | Some IllTyped \<Rightarrow> caught
                | Some (Results results) \<Rightarrow>
                    let (found, w2) = process_results e taxonomicClass radius w1 results
                    in Return found (s\<lparr>lastGBIFError := None\<rparr>) w2))"

text \<open>The retry loop: turns \<open>attempt\<close> to \<open>maxRetries\<close>; behind the last turn the method
  returns the empty list.\<close>

function gbif_attempts ::
  "env \<Rightarrow> taxonomic_class \<Rightarrow> nat \<Rightarrow> nat \<Rightarrow> service \<Rightarrow> world \<Rightarrow> species list \<times> service \<times> world" where
  "gbif_attempts e taxonomicClass radius attempt s w =
     (if maxRetries < attempt then ([], s, w)
      else (case gbif_attempt e taxonomicClass radius attempt s w of
              Return found s1 w1 \<Rightarrow> (found, s1, w1)
            | Continue s1 w1 \<Rightarrow> gbif_attempts e taxonomicClass radius (attempt + 1) s1 w1))"
  by pat_completeness auto
termination
  by (relation "measure (\<lambda>(e, c, r, attempt, s, w). maxRetries + 1 - attempt)") auto

declare gbif_attempts.simps [simp del]

text \<open>The world in which a turn of the loop ends.\<close>

fun outcome_world :: "attempt_outcome \<Rightarrow> world" where
  "outcome_world (Return found s w) = w"
| "outcome_world (Continue s w) = w"

text \<open>A server error that reaches the retry branch: a status from 500 on, in a response
  that passes the check of the content before it (a JSON content type, a body that does
  not start with \<^verbatim>\<open><\<close>).\<close>

definition json_5xx :: "fetch_result \<Rightarrow> bool" where
  "json_5xx res =
     (case res of
        Rejected \<Rightarrow> False
      | Response r \<Rightarrow> 500 \<le> status r \<and> \<not> body_starts_lt r \<and>
          str_includes (or_empty (content_type r)) ''application/json'')"

text \<open>\<^verbatim>\<open>x > now\<close> and \<^verbatim>\<open>x <= now\<close> for a number \<open>x\<close> that can be \<^verbatim>\<open>NaN\<close>: both are false then.\<close>

definition js_gt :: "int option \<Rightarrow> int \<Rightarrow> bool" where
  "js_gt x n = (case x of Some v \<Rightarrow> n < v | None \<Rightarrow> False)"

definition js_le :: "int option \<Rightarrow> int \<Rightarrow> bool" where
  "js_le x n = (case x of Some v \<Rightarrow> v \<le> n | None \<Rightarrow> False)"

text \<open>The method \<^verbatim>\<open>fetchFromGBIF\<close>. The coordinates reach the log only: the request
  names the class, not the place.\<close>

definition fetchFromGBIF ::
  "env \<Rightarrow> service \<Rightarrow> world \<Rightarrow> real \<Rightarrow> real \<Rightarrow> taxonomic_class \<Rightarrow> nat
     \<Rightarrow> species list \<times> service \<times> world" where
  "fetchFromGBIF e s w latitude longitude taxonomicClass radius =
     (let s0 = s\<lparr>lastGBIFError := None\<rparr>;
          now = clock w;
          c = gbifCircuit s0
      in if is_open c \<and> js_gt (openUntil c) now then
           ([], s0\<lparr>lastGBIFError := Some CircuitOpenError\<rparr>, w)
         else
           let s1 = (if is_open c \<and> js_le (openUntil c) now
                     then s0\<lparr>gbifCircuit := c\<lparr>is_open := False, consecutiveFailures := 0,
                                               lastOpenedReason := None\<rparr>\<rparr>
                     else s0)
           in gbif_attempts e taxonomicClass radius 1 s1 w)"

subsection \<open>Fallback cascade\<close>

text \<open>\<^verbatim>\<open>a || b || c\<close> on strings: the first that is not empty, the last otherwise.\<close>

definition first_nonempty :: "string \<Rightarrow> string \<Rightarrow> string \<Rightarrow> string" where
  "first_nonempty a b c = (if a \<noteq> [] then a else if b \<noteq> [] then b else c)"

text \<open>The method \<^verbatim>\<open>getRegionalFallback\<close>.\<close>

definition getRegionalFallback :: "real \<Rightarrow> real \<Rightarrow> string \<Rightarrow> species list" where
  "getRegionalFallback latitude longitude animalType =
     (let region =
            (if 32 \<le> latitude \<and> latitude \<le> 42 \<and> -125 \<le> longitude \<and> longitude \<le> -114
             then ''california''
             else if 42 \<le> latitude \<and> latitude \<le> 49 \<and> -125 \<le> longitude \<and> longitude \<le> -116
             then ''pacific_northwest''
             else if 25 \<le> latitude \<and> latitude \<le> 47 \<and> -100 \<le> longitude \<and> longitude \<le> -66
             then ''eastern_forests''
             else ''default'')
      in case map_of regionalFallbacks region of
           None \<Rightarrow> []
         | Some regionalData \<Rightarrow>
             (case map_of regionalData animalType of
                None \<Rightarrow> []
              | Some names \<Rightarrow>
                  map (\<lambda>n. \<lparr>name = capitalizeWords
                                    (first_nonempty (sanitizeDisplayName n) (extractBinomial n) n),
                            scientificName = extractBinomial n,
                            type = singularize animalType,
                            habitat = inferHabitat n animalType,
                            source = ''regional-'' @ region,
                            lastUsed = 0\<rparr>) names))"

text \<open>The method \<^verbatim>\<open>getGlobalFallback\<close>.\<close>

definition getGlobalFallback :: "string \<Rightarrow> species list" where
  "getGlobalFallback animalType =
     (let globalSpecies =
            (case map_of globalFallbacks animalType of
               Some names \<Rightarrow> names
             | None \<Rightarrow> (case map_of globalFallbacks ''birds'' of Some names \<Rightarrow> names | None \<Rightarrow> []))
      in map (\<lambda>n. \<lparr>name = capitalizeWords
                              (first_nonempty (sanitizeDisplayName n) (extractBinomial n) n),
                      scientificName = extractBinomial n,
                      type = singularize animalType,
                      habitat = inferHabitat n animalType,
                      source = ''global-fallback'',
                      lastUsed = 0\<rparr>) globalSpecies)"

text \<open>\<^verbatim>\<open>array.slice(0, count)\<close> for an integer \<open>count\<close>: a negative \<open>count\<close> counts from
  the end.\<close>

definition slice0 :: "int \<Rightarrow> 'a list \<Rightarrow> 'a list" where
  "slice0 count xs = (if 0 \<le> count then take (nat count) xs else take (nat (int (length xs) + count)) xs)"

text \<open>The method \<^verbatim>\<open>getSpeciesForClass\<close>.\<close>

definition getSpeciesForClass ::
  "env \<Rightarrow> service \<Rightarrow> world \<Rightarrow> real \<Rightarrow> real \<Rightarrow> taxonomic_class \<Rightarrow> int
     \<Rightarrow> species list \<times> service \<times> world" where
  "getSpeciesForClass e s w latitude longitude taxonomicClass count =
     (case (case getCachedEntry s latitude longitude taxonomicClass of
              Some cachedEntry \<Rightarrow> if entry_species cachedEntry \<noteq> [] then Some cachedEntry else None
            | None \<Rightarrow> None) of
        Some cachedEntry \<Rightarrow> (slice0 count (entry_species cachedEntry), s, w)
      | None \<Rightarrow>
          let (found, s1, w1) = fetchFromGBIF e s w latitude longitude taxonomicClass 50
          in if count \<le> int (length found) then
               (found, cacheSpecies (clock w1) s1 latitude longitude taxonomicClass found, w1)
             else
               let (found, s2, w2) = fetchFromGBIF e s1 w1 latitude longitude taxonomicClass 200
               in if count \<le> int (length found) then
                    (found, cacheSpecies (clock w2) s2 latitude longitude taxonomicClass found, w2)
                  else
                    let regionalSpecies = getRegionalFallback latitude longitude (cls_name taxonomicClass);
                        found = (if regionalSpecies \<noteq> [] then found @ regionalSpecies else found)
                    in if regionalSpecies \<noteq> [] \<and> count \<le> int (length found) then
                         (found, cacheSpecies (clock w2) s2 latitude longitude taxonomicClass found, w2)
                       else
                         let found = found @ getGlobalFallback (cls_name taxonomicClass)
                         in (found, cacheSpecies (clock w2) s2 latitude longitude taxonomicClass found, w2))"

text \<open>An element of the list that \<^verbatim>\<open>getSpeciesForMeditation\<close> builds, one for each
  class it fetched.\<close>

record class_result =
  res_type :: string
  res_species :: "species list"
  res_count :: nat
  res_source :: string

text \<open>The loop \<^verbatim>\<open>for (const taxonomicClass of classesToFetch)\<close>.\<close>

fun fetch_classes ::
  "env \<Rightarrow> real \<Rightarrow> real \<Rightarrow> int \<Rightarrow> taxonomic_class list \<Rightarrow> service \<Rightarrow> world
     \<Rightarrow> class_result list \<times> service \<times> world" where
  "fetch_classes e latitude longitude count [] s w = ([], s, w)"
| "fetch_classes e latitude longitude count (taxonomicClass # rest) s w =
     (let (found, s1, w1) = getSpeciesForClass e s w latitude longitude taxonomicClass count;
          result = \<lparr>res_type = cls_name taxonomicClass,
                    res_species = slice0 count found,
                    res_count = length found,
                    res_source = (case found of
                                    x # _ \<Rightarrow> if source x \<noteq> [] then source x else ''fallback''
                                  | [] \<Rightarrow> ''fallback'')\<rparr>;
          (results, s2, w2) = fetch_classes e latitude longitude count rest s1 w1
      in (result # results, s2, w2))"

text \<open>What \<^verbatim>\<open>getSpeciesForMeditation\<close> returns: the species of the one class asked for,
  or one result for each class.\<close>

datatype meditation_result = SpeciesList "species list" | ClassResults "class_result list"

text \<open>The method \<^verbatim>\<open>getSpeciesForMeditation\<close>; \<open>animalType\<close> is \<open>None\<close> for \<^verbatim>\<open>null\<close>. Nothing
  in the \<^verbatim>\<open>try\<close> block raises, so the \<^verbatim>\<open>catch\<close> block with the emergency fallback is
  never entered.\<close>

definition getSpeciesForMeditation ::
  "env \<Rightarrow> service \<Rightarrow> world \<Rightarrow> real \<Rightarrow> real \<Rightarrow> string option \<Rightarrow> int
     \<Rightarrow> meditation_result \<times> service \<times> world" where
  "getSpeciesForMeditation e s w latitude longitude animalType count =
     (let classesToFetch =
            (if truthy animalType
             then filter (\<lambda>cls. cls_name cls = or_empty animalType) taxonomicClasses
             else taxonomicClasses);
          (results, s1, w1) = fetch_classes e latitude longitude count classesToFetch s w
      in (if truthy animalType
          then SpeciesList (case results of r # _ \<Rightarrow> res_species r | [] \<Rightarrow> [])
          else ClassResults results,
          s1, w1))"

subsection \<open>Selection policy\<close>

text \<open>The filter of \<^verbatim>\<open>selectSpecies\<close>:
  \<^verbatim>\<open>!s.lastUsed || (now - s.lastUsed) >= twoDaysMs\<close>.\<close>

definition eligible :: "int \<Rightarrow> int \<Rightarrow> species \<Rightarrow> bool" where
  "eligible now twoDaysMs x \<longleftrightarrow> lastUsed x = 0 \<or> twoDaysMs \<le> now - lastUsed x"

text \<open>The cooldown window in milliseconds, the constant \<^verbatim>\<open>twoDaysMs\<close> of \<^verbatim>\<open>selectSpecies\<close>.\<close>

definition twoDaysMs :: "service \<Rightarrow> int" where
  "twoDaysMs s = noRepeatDays s * 24 * 60 * 60 * 1000"

text \<open>Two species have the same name, letter case apart; and the names of a list of
  species differ pairwise, letter case apart.\<close>

definition same_name :: "species \<Rightarrow> species \<Rightarrow> bool" where
  "same_name c x \<longleftrightarrow> toLowerCase (name x) = toLowerCase (name c)"

definition names_differ :: "species list \<Rightarrow> bool" where
  "names_differ xs \<longleftrightarrow> distinct (map (\<lambda>x. toLowerCase (name x)) xs)"

text \<open>\<^verbatim>\<open>xs[Math.floor(r * xs.length)]\<close>; \<open>None\<close> is \<^verbatim>\<open>undefined\<close>, for an index outside the
  array.\<close>

definition random_pick :: "real \<Rightarrow> 'a list \<Rightarrow> 'a option" where
  "random_pick r xs =
     (let i = \<lfloor>r * real (length xs)\<rfloor>
      in if 0 \<le> i \<and> i < int (length xs) then Some (xs ! nat i) else None)"

text \<open>\<^verbatim>\<open>array.findIndex(p)\<close>; \<open>None\<close> is \<open>-1\<close>.\<close>

fun find_index :: "('a \<Rightarrow> bool) \<Rightarrow> 'a list \<Rightarrow> nat option" where
  "find_index p [] = None"
| "find_index p (x # xs) = (if p x then Some 0 else map_option Suc (find_index p xs))"

text \<open>The stamp that \<^verbatim>\<open>selectSpecies\<close> leaves: the first cached species whose name is the
  candidate's, letter case apart, gets \<open>lastUsed = now\<close>; \<open>None\<close> when \<^verbatim>\<open>findIndex\<close> finds
  none.\<close>

definition stamp_used :: "int \<Rightarrow> species \<Rightarrow> species list \<Rightarrow> species list option" where
  "stamp_used now c cached =
     (case find_index (\<lambda>x. toLowerCase (name x) = toLowerCase (name c)) cached of
        Some foundIdx \<Rightarrow> Some (cached[foundIdx := (cached ! foundIdx)\<lparr>lastUsed := now\<rparr>])
      | None \<Rightarrow> None)"

text \<open>The choice of the candidate in \<^verbatim>\<open>selectSpecies\<close>, with the stamp it leaves in the
  cache. The candidate is \<open>None\<close> when the random index falls outside the array: the
  code then raises on the first read of \<^verbatim>\<open>candidate.name\<close>.\<close>

definition select_candidate ::
  "env \<Rightarrow> service \<Rightarrow> world \<Rightarrow> real \<Rightarrow> real \<Rightarrow> taxonomic_class \<Rightarrow> species list
     \<Rightarrow> species option \<times> service \<times> world" where
  "select_candidate e s w latitude longitude targetClass speciesList =
     (let cacheEntry = getCachedEntry s latitude longitude targetClass;
          twoDaysMs = twoDaysMs s;
          now = clock w
      in case (case cacheEntry of
                 Some entry \<Rightarrow> if entry_species entry \<noteq> [] then Some entry else None
               | None \<Rightarrow> None) of
           Some entry \<Rightarrow>
             let cached = entry_species entry;
                 unused = filter (eligible now twoDaysMs) cached;
                 (candidate, w1) =
                   (if unused \<noteq> []
                    then (let (r, w1) = math_random e w in (random_pick r unused, w1))
                    else (Some (hd (sort_key lastUsed cached)), w))
             in (case candidate of
                   None \<Rightarrow> (None, s, w1)
                 | Some c \<Rightarrow>
                     (case stamp_used now c cached of
                        Some stamped \<Rightarrow>
                          (Some c,
                           s\<lparr>cache := map_set (generateLocationKey latitude longitude targetClass)
                                        (entry\<lparr>entry_species := stamped\<rparr>) (cache s)\<rparr>,
                           w1)
                      | None \<Rightarrow> (Some c, s, w1)))
         | None \<Rightarrow>
             let (r, w1) = math_random e w
             in (random_pick r speciesList,
                 cacheSpecies now s latitude longitude targetClass speciesList, w1))"

text \<open>What \<^verbatim>\<open>selectSpecies\<close> returns.\<close>

record selection =
  sel_name :: string
  sel_scientificName :: string
  sel_type :: string

text \<open>The method \<^verbatim>\<open>getFallbackSpecies\<close>.\<close>

definition getFallbackSpecies :: selection where
  "getFallbackSpecies =
     \<lparr>sel_name = ''Anna'' @ [CHR 0x27] @ ''s Hummingbird'', sel_scientificName = ''Calypte anna'',
      sel_type = ''bird''\<rparr>"

text \<open>The class that \<^verbatim>\<open>selectSpecies\<close> finds for the requested type, in lower case.\<close>

definition matching_class :: "string \<Rightarrow> taxonomic_class option" where
  "matching_class requested =
     find (\<lambda>cls.
             let clsName = toLowerCase (cls_name cls)
             in clsName = requested \<or>
                (endsWith clsName ''s'' \<and> butlast clsName = requested) \<or>
                (endsWith requested ''s'' \<and> butlast requested = clsName) \<or>
                toLowerCase (cls_displayName cls) = requested)
          taxonomicClasses"

text \<open>The class that \<^verbatim>\<open>selectSpecies\<close> works on: the class found for the requested type,
  or a random class when no type is requested or none is found; \<open>None\<close> is \<^verbatim>\<open>undefined\<close>,
  for a random index outside the registry.\<close>

definition choose_class :: "env \<Rightarrow> world \<Rightarrow> string option \<Rightarrow> taxonomic_class option \<times> world" where
  "choose_class e w speciesType =
     (case (if truthy speciesType then matching_class (toLowerCase (or_empty speciesType))
            else None) of
        Some cls \<Rightarrow> (Some cls, w)
      | None \<Rightarrow> (let (r, w1) = math_random e w in (random_pick r taxonomicClasses, w1)))"

text \<open>The object that \<^verbatim>\<open>selectSpecies\<close> returns for a candidate.\<close>

definition format_selection :: "taxonomic_class \<Rightarrow> species \<Rightarrow> selection" where
  "format_selection targetClass c =
     (let displaySanitized =
            first_nonempty (capitalizeWords (sanitizeDisplayName (name c)))
              ''Unknown Species'' ''Unknown Species'';
          scientificSanitized =
            (if scientificName c \<noteq> [] then extractBinomial (scientificName c) else ''Unknown'')
      in \<lparr>sel_name = displaySanitized,
          sel_scientificName = first_nonempty scientificSanitized ''Unknown'' ''Unknown'',
          sel_type = singularize (cls_name targetClass)\<rparr>)"

text \<open>The method \<^verbatim>\<open>selectSpecies\<close>; \<open>speciesType\<close> is \<^verbatim>\<open>preferences?.speciesType\<close>. Where the
  code raises, the \<^verbatim>\<open>catch\<close> block returns the fallback species. The block that
  compares the type of the candidate with the class writes to the log and to a variable
  that is not read again.\<close>

definition selectSpecies ::
  "env \<Rightarrow> service \<Rightarrow> world \<Rightarrow> real \<Rightarrow> real \<Rightarrow> string option \<Rightarrow> selection \<times> service \<times> world" where
  "selectSpecies e s w latitude longitude speciesType =
     (let (targetClass, w1) = choose_class e w speciesType
      in case targetClass of
           None \<Rightarrow> (getFallbackSpecies, s, w1)
         | Some cls \<Rightarrow>
             let (speciesList, s1, w2) = getSpeciesForClass e s w1 latitude longitude cls 50
             in if speciesList = [] then (getFallbackSpecies, s1, w2)
                else
                  let (candidate, s2, w3) = select_candidate e s1 w2 latitude longitude cls speciesList
                  in (case candidate of
                        None \<Rightarrow> (getFallbackSpecies, s2, w3)
                      | Some c \<Rightarrow> (format_selection cls c, s2, w3)))"

subsection \<open>Example runs\<close>

text \<open>Concrete classes, worlds and environments, for the runs that the properties below
  are tried on.\<close>

definition birds :: taxonomic_class where
  "birds = \<lparr>cls_name = ''birds'', cls_key = 212, cls_displayName = ''Birds''\<rparr>"

definition start_world :: world where
  "start_world = \<lparr>clock = 1700000000000, io_count = 0, rand_count = 0\<rparr>"

definition json_response :: "int \<Rightarrow> payload option \<Rightarrow> http_response" where
  "json_response st body =
     \<lparr>status = st, retry_after = None, content_type = Some ''application/json'',
      body_starts_lt = False, body_json = body\<rparr>"

text \<open>An environment in which every search request has the same outcome, every request
  takes 40 ms and every random value is one half.\<close>

definition const_env :: "fetch_result \<Rightarrow> env" where
  "const_env res =
     \<lparr>search_response = (\<lambda>n. res), vernacular_response = (\<lambda>n. VRejected),
      latency = (\<lambda>n. 40), random = (\<lambda>n. 1 / 2)\<rparr>"

definition rate_limited :: "string \<Rightarrow> fetch_result" where
  "rate_limited h = Response ((json_response 429 None)\<lparr>retry_after := Some h\<rparr>)"

definition server_error :: fetch_result where
  "server_error = Response (json_response 503 None)"

definition robin :: gbif_record where
  "robin =
     \<lparr>rec_key = Some 9510564,
      rec_vernacularNames =
        Some [\<lparr>v_name = Some ''American Robin'', v_language = Some ''eng'', v_lang = None\<rparr>],
      rec_vernacularName = NoVernacular, rec_commonName = None,
      rec_scientificName = Some ''Turdus migratorius Linnaeus, 1766'',
      rec_canonicalName = Some ''Turdus migratorius''\<rparr>"

text \<open>An environment whose first search request meets a server error and whose later
  ones succeed with one record.\<close>

definition flaky :: env where
  "flaky =
     \<lparr>search_response =
        (\<lambda>n. if n = 0 then server_error
             else Response (json_response 200 (Some (Results (Some [robin]))))),
      vernacular_response = (\<lambda>n. VRejected), latency = (\<lambda>n. 40), random = (\<lambda>n. 1 / 2)\<rparr>"

text \<open>The result of a first call that is rate limited with \<^verbatim>\<open>retry-after: 30\<close>, and the
  world that call returns in, \<open>d\<close> milliseconds later.\<close>

definition after_rate_limit :: "species list \<times> service \<times> world" where
  "after_rate_limit =
     fetchFromGBIF (const_env (rate_limited ''30'')) (new_service None) start_world 34 (-117) birds 50"

definition later :: "int \<Rightarrow> world" where
  "later d = (snd (snd after_rate_limit))\<lparr>clock := clock (snd (snd after_rate_limit)) + d\<rparr>"

text \<open>A species as the upstream fetch returns it, and the service after \<open>n\<close> insertions
  into a fresh cache, the \<open>i\<close>-th at latitude \<open>i / 100\<close> and longitude \<open>0\<close>, whose key is
  \<open>bird_key i\<close>.\<close>

definition house_sparrow :: species where
  "house_sparrow = \<lparr>name = ''House Sparrow'', scientificName = ''Passer domesticus'', type = ''bird'',
     habitat = ''urban'', source = ''GBIF-50km'', lastUsed = 0\<rparr>"

definition bird_key :: "nat \<Rightarrow> string" where
  "bird_key i = generateLocationKey (real i / 100) 0 birds"

definition fill_cache :: "nat \<Rightarrow> service" where
  "fill_cache n =
     foldl (\<lambda>s i. cacheSpecies 0 s (real i / 100) 0 birds [house_sparrow]) (new_service None) [0..<n]"

text \<open>Upstream records: one with an English vernacular name, one with a scientific name
  only; the environment in which every search request is answered with the same records;
  and a species as the fetch within 50 km returns it.\<close>

definition named_record :: "string \<Rightarrow> string \<Rightarrow> gbif_record" where
  "named_record vernacularName scientific =
     \<lparr>rec_key = None,
      rec_vernacularNames =
        Some [\<lparr>v_name = Some vernacularName, v_language = Some ''eng'', v_lang = None\<rparr>],
      rec_vernacularName = NoVernacular, rec_commonName = None,
      rec_scientificName = Some scientific, rec_canonicalName = None\<rparr>"

definition unnamed_record :: "string \<Rightarrow> gbif_record" where
  "unnamed_record scientific =
     \<lparr>rec_key = None, rec_vernacularNames = None,
      rec_vernacularName = NoVernacular, rec_commonName = None,
      rec_scientificName = Some scientific, rec_canonicalName = None\<rparr>"

definition upstream :: "gbif_record list \<Rightarrow> env" where
  "upstream rs = const_env (Response (json_response 200 (Some (Results (Some rs)))))"

definition gbif_bird :: "string \<Rightarrow> string \<Rightarrow> string \<Rightarrow> int \<Rightarrow> species" where
  "gbif_bird n scientific h t =
     \<lparr>name = n, scientificName = scientific, type = ''bird'', habitat = h,
      source = ''GBIF-50km'', lastUsed = t\<rparr>"

text \<open>Three garden birds; and three records of which the first two have no vernacular
  name: the scientific name of the first is a sharp s (\<open>0xDF\<close>), a space and an e with
  acute accent (\<open>0xE9\<close>), that of the second is \<^verbatim>\<open>ss\<close>, a space and the same e.\<close>

definition garden_records :: "gbif_record list" where
  "garden_records =
     [named_record ''House Sparrow'' ''Passer domesticus'',
      named_record ''Rock Dove'' ''Columba livia'', robin]"

definition sharp_records :: "gbif_record list" where
  "sharp_records =
     [unnamed_record [CHR 0xDF, CHR '' '', CHR 0xE9], unnamed_record (''ss '' @ [CHR 0xE9]), robin]"

text \<open>The species that the cache holds for these records, with their \<open>lastUsed\<close> stamps.\<close>

definition garden_birds :: "int \<Rightarrow> int \<Rightarrow> int \<Rightarrow> species list" where
  "garden_birds t0 t1 t2 =
     [gbif_bird ''House Sparrow'' ''Passer domesticus'' ''urban'' t0,
      gbif_bird ''Rock Dove'' ''Columba livia'' ''woodland'' t1,
      gbif_bird ''American Robin'' ''Turdus migratorius'' ''woodland'' t2]"

definition sharp_birds :: "int \<Rightarrow> int \<Rightarrow> int \<Rightarrow> species list" where
  "sharp_birds t0 t1 t2 =
     [gbif_bird (''SS '' @ [CHR 0xC9]) [CHR 0xDF, CHR '' '', CHR 0xE9] ''woodland'' t0,
      gbif_bird (''Ss '' @ [CHR 0xC9]) (''ss '' @ [CHR 0xE9]) ''woodland'' t1,
      gbif_bird ''American Robin'' ''Turdus migratorius'' ''woodland'' t2]"

text \<open>A fresh service that is asked for three birds at \<open>(34, -117)\<close> while the upstream
  answers with the records \<open>rs\<close>: the call that seeds the cache.\<close>

definition seed :: "gbif_record list \<Rightarrow> species list \<times> service \<times> world" where
  "seed rs = getSpeciesForClass (upstream rs) (new_service None) start_world 34 (-117) birds 3"

definition seeded_service :: "gbif_record list \<Rightarrow> service" where
  "seeded_service rs = fst (snd (seed rs))"

definition seeded_world :: "gbif_record list \<Rightarrow> world" where
  "seeded_world rs = snd (snd (seed rs))"

text \<open>\<open>n\<close> selections in a row, with \<open>d\<close> milliseconds passing after each: the candidates
  chosen, and the service and the world at the end.\<close>

fun select_run ::
  "nat \<Rightarrow> int \<Rightarrow> env \<Rightarrow> service \<Rightarrow> world \<Rightarrow> real \<Rightarrow> real \<Rightarrow> taxonomic_class
     \<Rightarrow> species option list \<times> service \<times> world" where
  "select_run 0 d e s w latitude longitude cls = ([], s, w)"
| "select_run (Suc n) d e s w latitude longitude cls =
     (let (candidate, s1, w1) = select_candidate e s w latitude longitude cls [];
          (candidates, s2, w2) = select_run n d e s1 (sleep d w1) latitude longitude cls
      in (candidate # candidates, s2, w2))"

text \<open>The garden birds after three selections with one second between them, and one
  second after the third.\<close>

definition garden_later :: "service \<times> world" where
  "garden_later =
     snd (select_run 3 1000 (upstream garden_records) (seeded_service garden_records)
            (seeded_world garden_records) 34 (-117) birds)"

section \<open>Properties\<close>

subsection \<open>Name normalizer\<close>

lemma sanitize_bullfrog:
  "sanitizeDisplayName ''Lithobates catesbeianus, (Shaw, 1802)'' = ''Lithobates catesbeianus''"
  by code_simp

text \<open>
  Claim C8. Sanitization would be idempotent if a sanitized name came back unchanged from
  a second pass. The shorthand tokens are removed before the digits are: in
  \<^verbatim>\<open>Frog sp1\<close> the token \<^verbatim>\<open>sp\<close> is followed by a digit, so it is no whole word and stays,
  and the removal of the digit then leaves \<^verbatim>\<open>Frog sp\<close>. The second pass finds the token
  and returns \<^verbatim>\<open>Frog\<close>.
\<close>

theorem sanitize_twice_differs:
  "sanitizeDisplayName ''Frog sp1'' = ''Frog sp'' \<and>
   sanitizeDisplayName (sanitizeDisplayName ''Frog sp1'') = ''Frog''"
  by code_simp

lemma set_strip_parens: "set (strip_parens s) \<subseteq> set s"
proof (induction s rule: strip_parens.induct)
  case 1
  show ?case by simp
next
  case (2 c cs)
  show ?case
  proof (cases "c = CHR ''(''")
    case False
    from 2(3) [OF False] have ih: "set (strip_parens cs) \<subseteq> set cs" .
    have "strip_parens (c # cs) = c # strip_parens cs"
      by (subst strip_parens.simps) (simp only: False if_False simp_thms)
    with ih show ?thesis by (simp add: subset_insertI2)
  next
    case True
    show ?thesis
    proof (cases "dropWhile (\<lambda>d. d \<noteq> CHR '')'') cs")
      case Nil
      from 2(1) [OF True Nil] have ih: "set (strip_parens cs) \<subseteq> set cs" .
      have "strip_parens (c # cs) = c # strip_parens cs"
        by (subst strip_parens.simps) (simp only: True Nil if_True list.case simp_thms)
      with ih show ?thesis by (simp add: subset_insertI2)
    next
      case (Cons d rest)
      have "x \<in> set cs" if "x \<in> set rest" for x
      proof -
        from that have "x \<in> set (dropWhile (\<lambda>d. d \<noteq> CHR '')'') cs)" by (simp add: Cons)
        then show ?thesis by (rule set_dropWhileD)
      qed
      then have "set rest \<subseteq> set cs" by blast
      moreover from 2(2) [OF True Cons] have "set (strip_parens rest) \<subseteq> set rest" .
      ultimately have sub: "set (strip_parens rest) \<subseteq> insert c (set cs)" by blast
      have "strip_parens (c # cs) = strip_parens rest"
        by (subst strip_parens.simps) (simp only: True Cons if_True list.case simp_thms)
      with sub show ?thesis by simp
    qed
  qed
qed

lemma set_match_year: "match_year s = Some rest \<Longrightarrow> set rest \<subseteq> set s"
proof -
  assume m: "match_year s = Some rest"
  define s1 where "s1 = (case s of c # cs \<Rightarrow> if c = CHR '','' then cs else s | [] \<Rightarrow> s)"
  define s2 where "s2 = dropWhile is_space s1"
  from m have "rest = drop (min 4 (length (takeWhile is_digit s2))) s2"
    by (auto simp: match_year_def Let_def s1_def s2_def split: if_splits)
  then have "set rest \<subseteq> set s2" by (simp add: set_drop_subset)
  also have "set s2 \<subseteq> set s1" unfolding s2_def by (auto dest: set_dropWhileD)
  also have "set s1 \<subseteq> set s" by (auto simp: s1_def split: list.splits if_splits)
  finally show ?thesis .
qed

lemma set_strip_years: "set (strip_years s) \<subseteq> set s"
proof (induction s rule: strip_years.induct)
  case 1
  show ?case by simp
next
  case (2 c cs)
  show ?case
  proof (cases "match_year (c # cs)")
    case None
    from 2(1) [OF None] have ih: "set (strip_years cs) \<subseteq> set cs" .
    have "strip_years (c # cs) = c # strip_years cs"
      by (subst strip_years.simps) (simp only: None option.case)
    with ih show ?thesis by (simp add: subset_insertI2)
  next
    case (Some rest)
    from 2(2) [OF Some] have ih: "set (strip_years rest) \<subseteq> set rest" .
    have "strip_years (c # cs) = strip_years rest"
      by (subst strip_years.simps) (simp only: Some option.case)
    with ih have "set (strip_years (c # cs)) \<subseteq> set rest" by (simp only:)
    then show ?thesis using set_match_year [OF Some] by (rule subset_trans)
  qed
qed

lemma collapse_ws_no_space: "\<forall>c \<in> set s. \<not> is_space c \<Longrightarrow> collapse_ws s = s"
  by (induction s) auto

lemma dropWhile_no_space: "\<forall>c \<in> set s. \<not> is_space c \<Longrightarrow> dropWhile is_space s = s"
  by (cases s) auto

lemma trim_no_space: "\<forall>c \<in> set s. \<not> is_space c \<Longrightarrow> trim s = s"
  by (simp add: trim_def dropWhile_no_space)

lemma split_on_absent: "sep \<notin> set s \<Longrightarrow> split_on sep s = [s]"
  by (induction s) auto

text \<open>A raw name without white space is one word at most: no binomial comes out of it.\<close>

lemma extractBinomial_single_word:
  assumes "\<forall>c \<in> set scientific. \<not> is_space c"
  shows "extractBinomial scientific = []"
proof -
  define t where "t = strip_years (strip_parens scientific)"
  have "set t \<subseteq> set scientific"
    unfolding t_def using set_strip_years set_strip_parens by (rule subset_trans)
  with assms have ns: "\<forall>c \<in> set t. \<not> is_space c" by auto
  then have "CHR '' '' \<notin> set t" by (auto simp: is_space_def)
  then have "split_on CHR '' '' t = [t]" by (rule split_on_absent)
  with ns show ?thesis
    by (simp add: extractBinomial_def Let_def t_def [symmetric] collapse_ws_no_space trim_no_space)
qed

text \<open>
  Claim C9. On the raw name \<^verbatim>\<open>Lithobates catesbeianus, (Shaw, 1802)\<close> the method
  \<^verbatim>\<open>extractBinomial\<close> removes the parenthesis with the author and the year; the comma
  before it is followed by no year any more and stays, so the second word of the
  result is \<^verbatim>\<open>catesbeianus,\<close> with the comma. (The rest of the claim holds: the
  sanitized name is \<^verbatim>\<open>Lithobates catesbeianus\<close>, by \<open>sanitize_bullfrog\<close>, and a raw name
  of one word gives the empty string, by \<open>extractBinomial_single_word\<close>.)
\<close>

theorem extractBinomial_keeps_comma:
  "extractBinomial ''Lithobates catesbeianus, (Shaw, 1802)'' = ''Lithobates catesbeianus,''"
  by code_simp

subsection \<open>Upstream client: the retry loop\<close>

lemma attempts_continue:
  "a \<le> maxRetries \<Longrightarrow> gbif_attempt e c rad a s w = Continue s1 w1 \<Longrightarrow>
   gbif_attempts e c rad a s w = gbif_attempts e c rad (Suc a) s1 w1"
  by (subst gbif_attempts.simps) simp

lemma attempts_return:
  "a \<le> maxRetries \<Longrightarrow> gbif_attempt e c rad a s w = Return found s1 w1 \<Longrightarrow>
   gbif_attempts e c rad a s w = (found, s1, w1)"
  by (subst gbif_attempts.simps) simp

lemma attempts_exhausted:
  "maxRetries < a \<Longrightarrow> gbif_attempts e c rad a s w = ([], s, w)"
  by (subst gbif_attempts.simps) simp

text \<open>Requests are counted, never taken back.\<close>

lemma io_fetch_vernacular: "io_count w \<le> io_count (snd (fetch_vernacular e w))"
  by (simp add: fetch_vernacular_def network_request_def sleep_def split_beta)

lemma io_process_record:
  "io_count (snd acc) \<le> io_count (snd (process_record e c r acc x))"
proof -
  obtain seen w where acc: "acc = (seen, w)" by (cases acc)
  have "io_count w \<le> io_count (snd (fetch_vernacular e w))" by (rule io_fetch_vernacular)
  then show ?thesis
    unfolding acc process_record_def by (simp add: split_beta Let_def)
qed

lemma io_foldl_process_record:
  "io_count (snd acc) \<le> io_count (snd (foldl (process_record e c r) acc xs))"
proof (induction xs arbitrary: acc)
  case Nil
  show ?case by simp
next
  case (Cons x xs)
  have "io_count (snd acc) \<le> io_count (snd (process_record e c r acc x))"
    by (rule io_process_record)
  also have "\<dots> \<le> io_count (snd (foldl (process_record e c r) (process_record e c r acc x) xs))"
    by (rule Cons.IH)
  finally show ?case by simp
qed

lemma io_process_results:
  "io_count w \<le> io_count (snd (process_results e c r w results))"
proof (cases results)
  case None
  then show ?thesis by (simp add: process_results_def)
next
  case (Some rs)
  have "io_count (snd ([]::(string \<times> species) list, w))
          \<le> io_count (snd (foldl (process_record e c r) ([], w) (take 50 rs)))"
    by (rule io_foldl_process_record)
  with Some show ?thesis by (simp add: process_results_def split_beta)
qed

text \<open>Every turn of the loop makes a request.\<close>

lemma io_gbif_attempt:
  "io_count w < io_count (outcome_world (gbif_attempt e c r a s w))"
proof -
  define w1 where "w1 = snd (network_request e (sleep 250 w))"
  have w1: "io_count w1 = io_count w + 1"
    by (simp add: w1_def network_request_def sleep_def)
  have "io_count w1 \<le> io_count (snd (process_results e c r w1 results))" for results
    by (rule io_process_results)
  with w1 have pr: "io_count w < io_count (snd (process_results e c r w1 results))" for results
    by (simp add: less_eq_Suc_le)
  from w1 pr show ?thesis
    unfolding gbif_attempt_def w1_def
    by (simp add: split_beta Let_def sleep_def math_random_def
        split: fetch_result.split option.split payload.split)
qed

lemma io_gbif_attempts_mono:
  "io_count w \<le> io_count (snd (snd (gbif_attempts e c r a s w)))"
proof (induction e c r a s w rule: gbif_attempts.induct)
  case (1 e c r a s w)
  show ?case
  proof (cases "maxRetries < a")
    case True
    then show ?thesis by (simp add: attempts_exhausted)
  next
    case False
    then have le: "a \<le> maxRetries" by simp
    have lt: "io_count w < io_count (outcome_world (gbif_attempt e c r a s w))"
      by (rule io_gbif_attempt)
    show ?thesis
    proof (cases "gbif_attempt e c r a s w")
      case (Return found s1 w1)
      with lt show ?thesis by (simp add: attempts_return [OF le Return])
    next
      case (Continue s1 w1)
      with False 1 have "io_count w1 \<le> io_count (snd (snd (gbif_attempts e c r (a + 1) s1 w1)))"
        by simp
      with Continue lt show ?thesis by (simp add: attempts_continue [OF le Continue])
    qed
  qed
qed

lemma io_gbif_attempts:
  assumes "a \<le> maxRetries"
  shows "io_count w < io_count (snd (snd (gbif_attempts e c r a s w)))"
proof -
  have lt: "io_count w < io_count (outcome_world (gbif_attempt e c r a s w))"
    by (rule io_gbif_attempt)
  show ?thesis
  proof (cases "gbif_attempt e c r a s w")
    case (Return found s1 w1)
    with lt show ?thesis by (simp add: attempts_return [OF assms Return])
  next
    case (Continue s1 w1)
    have "io_count w1 \<le> io_count (snd (snd (gbif_attempts e c r (Suc a) s1 w1)))"
      by (rule io_gbif_attempts_mono)
    with Continue lt show ?thesis by (simp add: attempts_continue [OF assms Continue])
  qed
qed

text \<open>The short-circuit at the head of \<^verbatim>\<open>fetchFromGBIF\<close>.\<close>

lemma fetchFromGBIF_rejects:
  assumes "is_open (gbifCircuit s)" and "js_gt (openUntil (gbifCircuit s)) (clock w)"
  shows "fetchFromGBIF e s w la lo c rad = ([], s\<lparr>lastGBIFError := Some CircuitOpenError\<rparr>, w)"
  using assms by (simp add: fetchFromGBIF_def Let_def)

lemma fetchFromGBIF_passes:
  assumes "\<not> (is_open (gbifCircuit s) \<and> js_gt (openUntil (gbifCircuit s)) (clock w))"
  shows "fetchFromGBIF e s w la lo c rad =
     gbif_attempts e c rad 1
       (if is_open (gbifCircuit s) \<and> js_le (openUntil (gbifCircuit s)) (clock w)
        then s\<lparr>lastGBIFError := None,
               gbifCircuit := (gbifCircuit s)\<lparr>is_open := False, consecutiveFailures := 0,
                                              lastOpenedReason := None\<rparr>\<rparr>
        else s\<lparr>lastGBIFError := None\<rparr>) w"
  using assms by (auto simp add: fetchFromGBIF_def Let_def)

text \<open>A turn that meets status 429.\<close>

lemma gbif_attempt_429:
  assumes "search_response e (io_count w) = Response r" and "status r = 429"
    and "retry_after r = Some h" and "h \<noteq> []" and "parseInt h = Some d"
  shows "gbif_attempt e c rad a s w =
     Return []
       (s\<lparr>lastGBIFError := Some (RateLimitedError (Some (d * 1000))),
          gbifCircuit := \<lparr>is_open = True,
            openUntil = Some (clock w + 250 + latency e (io_count w) + min (d * 1000 + 5000) 600000),
            lastOpenedReason = Some (RateLimit (Some h)),
            consecutiveFailures = consecutiveFailures (gbifCircuit s) + 1\<rparr>\<rparr>)
       (w\<lparr>clock := clock w + 250 + latency e (io_count w), io_count := io_count w + 1\<rparr>)"
  using assms
  by (simp add: gbif_attempt_def network_request_def sleep_def add_failure_def open_circuit_def
      Let_def truthy_def or_empty_def)

lemma rate_limit_at_any_turn:
  assumes "a \<le> maxRetries" and "search_response e (io_count w) = Response r" and "status r = 429"
    and "retry_after r = Some h" and "h \<noteq> []" and "parseInt h = Some d"
  shows "gbif_attempts e c rad a s w =
     ([],
      s\<lparr>lastGBIFError := Some (RateLimitedError (Some (d * 1000))),
        gbifCircuit := \<lparr>is_open = True,
          openUntil = Some (clock w + 250 + latency e (io_count w) + min (d * 1000 + 5000) 600000),
          lastOpenedReason = Some (RateLimit (Some h)),
          consecutiveFailures = consecutiveFailures (gbifCircuit s) + 1\<rparr>\<rparr>,
      w\<lparr>clock := clock w + 250 + latency e (io_count w), io_count := io_count w + 1\<rparr>)"
  by (rule attempts_return [OF assms(1) gbif_attempt_429 [OF assms(2-6)]])

lemma fetchFromGBIF_429:
  assumes "\<not> (is_open (gbifCircuit s) \<and> js_gt (openUntil (gbifCircuit s)) (clock w))"
    and "search_response e (io_count w) = Response r" and "status r = 429"
    and "retry_after r = Some h" and "h \<noteq> []" and "parseInt h = Some d"
  shows "fst (fetchFromGBIF e s w la lo c rad) = []"
    and "is_open (gbifCircuit (fst (snd (fetchFromGBIF e s w la lo c rad))))"
    and "openUntil (gbifCircuit (fst (snd (fetchFromGBIF e s w la lo c rad)))) =
           Some (clock w + 250 + latency e (io_count w) + min (d * 1000 + 5000) 600000)"
    and "snd (snd (fetchFromGBIF e s w la lo c rad)) =
           w\<lparr>clock := clock w + 250 + latency e (io_count w), io_count := io_count w + 1\<rparr>"
  using assms(1) rate_limit_at_any_turn [OF _ assms(2-6), of 1]
  by (simp_all add: fetchFromGBIF_passes maxRetries_def)

lemma parseInt_30: "parseInt ''30'' = Some 30"
  by code_simp

subsection \<open>Upstream client: the circuit breaker\<close>

text \<open>
  Claim C3. When the response has status 429 and its \<^verbatim>\<open>retry-after\<close> header holds the
  number \<open>d\<close> of seconds, the call returns the empty list after that one request, and it
  leaves the circuit open until \<open>min (d s + 5 s) (10 min)\<close> after the moment the response
  was handled, which is the moment the call returns. (The lemma
  \<open>rate_limit_at_any_turn\<close> says the same of a later turn of the retry loop.)
\<close>

theorem rate_limit_opens_circuit:
  assumes "\<not> (is_open (gbifCircuit s) \<and> js_gt (openUntil (gbifCircuit s)) (clock w))"
    and "search_response e (io_count w) = Response r"
    and "status r = 429"
    and "retry_after r = Some h" and "h \<noteq> []" and "parseInt h = Some d"
  shows "case fetchFromGBIF e s w latitude longitude cls radius of
           (found, s', w') \<Rightarrow>
             found = [] \<and> is_open (gbifCircuit s') \<and>
             openUntil (gbifCircuit s') = Some (clock w' + min (d * 1000 + 5 * 1000) (10 * 60 * 1000)) \<and>
             io_count w' = io_count w + 1"
  using fetchFromGBIF_429 [OF assms, of latitude longitude cls radius]
  by (simp add: split_beta)

theorem rate_limit_witness:
  "case fetchFromGBIF (const_env (rate_limited ''30'')) (new_service None) start_world 34 (-117) birds 50 of
     (found, s', w') \<Rightarrow>
       found = [] \<and> is_open (gbifCircuit s') \<and>
       openUntil (gbifCircuit s') = Some (clock w' + 35000) \<and> io_count w' = 1"
  using rate_limit_opens_circuit [of "new_service None" start_world "const_env (rate_limited ''30'')"
      "(json_response 429 None)\<lparr>retry_after := Some ''30''\<rparr>" "''30''" 30 34 "-117" birds 50]
  by (simp add: parseInt_30 new_service_def start_world_def const_env_def rate_limited_def
      json_response_def js_gt_def)

text \<open>
  Claim C2. While the circuit is open and the clock is before \<open>openUntil\<close>, a call returns
  the empty list and leaves the world as it was: no request is made. A call at or after
  \<open>openUntil\<close> closes the circuit, runs the retry loop and makes at least one request.
  In particular, after a call that was rate limited with \<^verbatim>\<open>retry-after: 30\<close> the circuit is
  open, a call 10 seconds after that call returned makes no request and returns the
  empty list, and a call 35 seconds or more after it makes a request.
\<close>

theorem open_circuit_rejects_without_io:
  "(is_open (gbifCircuit s) \<and> js_gt (openUntil (gbifCircuit s)) (clock w) \<longrightarrow>
      fetchFromGBIF e s w latitude longitude cls radius
        = ([], s\<lparr>lastGBIFError := Some CircuitOpenError\<rparr>, w)) \<and>
   (is_open (gbifCircuit s) \<and> js_le (openUntil (gbifCircuit s)) (clock w) \<longrightarrow>
      fetchFromGBIF e s w latitude longitude cls radius
        = gbif_attempts e cls radius 1
            (s\<lparr>lastGBIFError := None,
               gbifCircuit := (gbifCircuit s)\<lparr>is_open := False, consecutiveFailures := 0,
                                              lastOpenedReason := None\<rparr>\<rparr>) w \<and>
      io_count w < io_count (snd (snd (fetchFromGBIF e s w latitude longitude cls radius)))) \<and>
   (\<not> (is_open (gbifCircuit s) \<and> js_gt (openUntil (gbifCircuit s)) (clock w)) \<and>
    search_response e (io_count w) = Response r \<and> status r = 429 \<and> retry_after r = Some ''30'' \<longrightarrow>
      (case fetchFromGBIF e s w latitude longitude cls radius of
         (found, s1, w1) \<Rightarrow>
           is_open (gbifCircuit s1) \<and>
           (\<forall>e2 w2. clock w2 = clock w1 + 10 * 1000 \<longrightarrow>
              fetchFromGBIF e2 s1 w2 latitude longitude cls radius
                = ([], s1\<lparr>lastGBIFError := Some CircuitOpenError\<rparr>, w2)) \<and>
           (\<forall>e3 w3. clock w1 + 35 * 1000 \<le> clock w3 \<longrightarrow>
              io_count w3 < io_count (snd (snd (fetchFromGBIF e3 s1 w3 latitude longitude cls radius))))))"
proof (intro conjI impI)
  assume "is_open (gbifCircuit s) \<and> js_gt (openUntil (gbifCircuit s)) (clock w)"
  then show "fetchFromGBIF e s w latitude longitude cls radius
        = ([], s\<lparr>lastGBIFError := Some CircuitOpenError\<rparr>, w)"
    by (simp add: fetchFromGBIF_rejects)
next
  assume a: "is_open (gbifCircuit s) \<and> js_le (openUntil (gbifCircuit s)) (clock w)"
  then have n: "\<not> (is_open (gbifCircuit s) \<and> js_gt (openUntil (gbifCircuit s)) (clock w))"
    by (auto simp: js_le_def js_gt_def split: option.splits)
  from a show eq: "fetchFromGBIF e s w latitude longitude cls radius
        = gbif_attempts e cls radius 1
            (s\<lparr>lastGBIFError := None,
               gbifCircuit := (gbifCircuit s)\<lparr>is_open := False, consecutiveFailures := 0,
                                              lastOpenedReason := None\<rparr>\<rparr>) w"
    by (simp add: fetchFromGBIF_passes [OF n])
  show "io_count w < io_count (snd (snd (fetchFromGBIF e s w latitude longitude cls radius)))"
    unfolding eq by (rule io_gbif_attempts) (simp add: maxRetries_def)
next
  assume a: "\<not> (is_open (gbifCircuit s) \<and> js_gt (openUntil (gbifCircuit s)) (clock w)) \<and>
    search_response e (io_count w) = Response r \<and> status r = 429 \<and> retry_after r = Some ''30''"
  define res where "res = fetchFromGBIF e s w latitude longitude cls radius"
  define s1 where "s1 = fst (snd res)"
  define w1 where "w1 = snd (snd res)"
  from a have facts: "is_open (gbifCircuit s1)"
    "openUntil (gbifCircuit s1) = Some (clock w + 250 + latency e (io_count w) + 35000)"
    "w1 = w\<lparr>clock := clock w + 250 + latency e (io_count w), io_count := io_count w + 1\<rparr>"
    using fetchFromGBIF_429 [of s w e r "''30''" 30 latitude longitude cls radius]
    by (simp_all add: parseInt_30 s1_def w1_def res_def)
  then have until: "openUntil (gbifCircuit s1) = Some (clock w1 + 35000)" by simp
  have early: "fetchFromGBIF e2 s1 w2 latitude longitude cls radius
                = ([], s1\<lparr>lastGBIFError := Some CircuitOpenError\<rparr>, w2)"
    if "clock w2 = clock w1 + 10 * 1000" for e2 w2
    using that facts(1) until by (intro fetchFromGBIF_rejects) (simp_all add: js_gt_def)
  have late: "io_count w3 < io_count (snd (snd (fetchFromGBIF e3 s1 w3 latitude longitude cls radius)))"
    if "clock w1 + 35 * 1000 \<le> clock w3" for e3 w3
  proof -
    from that until have n: "\<not> (is_open (gbifCircuit s1) \<and> js_gt (openUntil (gbifCircuit s1)) (clock w3))"
      by (simp add: js_gt_def)
    show ?thesis
      unfolding fetchFromGBIF_passes [OF n] by (rule io_gbif_attempts) (simp add: maxRetries_def)
  qed
  from facts(1) early late
  show "case fetchFromGBIF e s w latitude longitude cls radius of
         (found, s1, w1) \<Rightarrow>
           is_open (gbifCircuit s1) \<and>
           (\<forall>e2 w2. clock w2 = clock w1 + 10 * 1000 \<longrightarrow>
              fetchFromGBIF e2 s1 w2 latitude longitude cls radius
                = ([], s1\<lparr>lastGBIFError := Some CircuitOpenError\<rparr>, w2)) \<and>
           (\<forall>e3 w3. clock w1 + 35 * 1000 \<le> clock w3 \<longrightarrow>
              io_count w3 < io_count (snd (snd (fetchFromGBIF e3 s1 w3 latitude longitude cls radius))))"
    unfolding s1_def w1_def res_def by (simp add: split_beta)
qed

lemma after_rate_limit_run:
  "after_rate_limit =
     ([],
      \<lparr>cache = [], cacheStats = \<lparr>hits = 0, misses = 0, evictions = 0\<rparr>,
       gbifCircuit = \<lparr>is_open = True, openUntil = Some 1700000035290,
                      lastOpenedReason = Some (RateLimit (Some ''30'')), consecutiveFailures = 1\<rparr>,
       lastGBIFError = Some (RateLimitedError (Some 30000)), noRepeatDays = 2\<rparr>,
      \<lparr>clock = 1700000000290, io_count = 1, rand_count = 0\<rparr>)"
  by code_simp

theorem open_circuit_witness:
  "is_open (gbifCircuit (fst (snd after_rate_limit))) \<and>
   fetchFromGBIF (const_env server_error) (fst (snd after_rate_limit)) (later 10000) 34 (-117) birds 50
     = ([], (fst (snd after_rate_limit))\<lparr>lastGBIFError := Some CircuitOpenError\<rparr>, later 10000) \<and>
   io_count (later 35000)
     < io_count (snd (snd (fetchFromGBIF (const_env server_error) (fst (snd after_rate_limit))
                             (later 35000) 34 (-117) birds 50)))"
proof -
  have early: "is_open (gbifCircuit (fst (snd after_rate_limit))) \<and>
      js_gt (openUntil (gbifCircuit (fst (snd after_rate_limit)))) (clock (later 10000))"
    by (simp add: later_def after_rate_limit_run js_gt_def)
  have late: "is_open (gbifCircuit (fst (snd after_rate_limit))) \<and>
      js_le (openUntil (gbifCircuit (fst (snd after_rate_limit)))) (clock (later 35000))"
    by (simp add: later_def after_rate_limit_run js_le_def)
  have first: "\<not> (is_open (gbifCircuit (new_service None)) \<and>
        js_gt (openUntil (gbifCircuit (new_service None))) (clock start_world)) \<and>
      search_response (const_env (rate_limited ''30'')) (io_count start_world)
        = Response ((json_response 429 None)\<lparr>retry_after := Some ''30''\<rparr>) \<and>
      status ((json_response 429 None)\<lparr>retry_after := Some ''30''\<rparr>) = 429 \<and>
      retry_after ((json_response 429 None)\<lparr>retry_after := Some ''30''\<rparr>) = Some ''30''"
    by (simp add: new_service_def const_env_def rate_limited_def json_response_def)
  from early
    open_circuit_rejects_without_io [of "fst (snd after_rate_limit)" "later 10000"
      "const_env server_error" 34 "-117" birds 50]
  have a: "fetchFromGBIF (const_env server_error) (fst (snd after_rate_limit)) (later 10000) 34 (-117) birds 50
     = ([], (fst (snd after_rate_limit))\<lparr>lastGBIFError := Some CircuitOpenError\<rparr>, later 10000)"
    by blast
  from late
    open_circuit_rejects_without_io [of "fst (snd after_rate_limit)" "later 35000"
      "const_env server_error" 34 "-117" birds 50]
  have b: "io_count (later 35000)
     < io_count (snd (snd (fetchFromGBIF (const_env server_error) (fst (snd after_rate_limit))
                             (later 35000) 34 (-117) birds 50)))"
    by blast
  from first
    open_circuit_rejects_without_io [of "new_service None" start_world
      "const_env (rate_limited ''30'')" 34 "-117" birds 50
      "(json_response 429 None)\<lparr>retry_after := Some ''30''\<rparr>"]
  have c: "is_open (gbifCircuit (fst (snd after_rate_limit)))"
    unfolding after_rate_limit_def by (simp add: split_beta)
  from a b c show ?thesis by simp
qed

subsection \<open>Upstream client: server errors\<close>

lemma gbif_attempt_5xx_retry:
  assumes "search_response e (io_count w) = Response r" and "500 \<le> status r"
    and "\<not> body_starts_lt r" and "str_includes (or_empty (content_type r)) ''application/json''"
    and "a < maxRetries"
  shows "gbif_attempt e c rad a s w =
     Continue
       (s\<lparr>lastGBIFError := Some (NonOkStatus (status r)),
          gbifCircuit := (gbifCircuit s)\<lparr>consecutiveFailures := consecutiveFailures (gbifCircuit s) + 1\<rparr>\<rparr>)
       (w\<lparr>clock := clock w + 250 + latency e (io_count w) + 1000 * 2 ^ a
                    + \<lfloor>random e (rand_count w) * 250\<rfloor>,
          io_count := io_count w + 1, rand_count := rand_count w + 1\<rparr>)"
  using assms
  by (simp add: gbif_attempt_def network_request_def sleep_def add_failure_def math_random_def Let_def)

lemma gbif_attempt_5xx_last:
  assumes "search_response e (io_count w) = Response r" and "500 \<le> status r"
    and "\<not> body_starts_lt r" and "str_includes (or_empty (content_type r)) ''application/json''"
    and "\<not> a < maxRetries"
  shows "gbif_attempt e c rad a s w =
     Return []
       (if 2 \<le> consecutiveFailures (gbifCircuit s)
        then s\<lparr>lastGBIFError := Some (NonOkStatus (status r)),
               gbifCircuit := (gbifCircuit s)\<lparr>is_open := True,
                 openUntil := Some (clock w + 250 + latency e (io_count w) + 120000),
                 lastOpenedReason := Some Repeated5xx\<rparr>\<rparr>
        else s\<lparr>lastGBIFError := Some (NonOkStatus (status r))\<rparr>)
       (w\<lparr>clock := clock w + 250 + latency e (io_count w), io_count := io_count w + 1\<rparr>)"
  using assms
  by (simp add: gbif_attempt_def network_request_def sleep_def open_circuit_def Let_def)

text \<open>Three server errors in a row: two turns that count a failure and go on, and a last
  turn that finds the count at two or more and opens the circuit.\<close>

lemma three_5xx_turns:
  assumes r0: "json_5xx (search_response e (io_count w))"
    and r1: "json_5xx (search_response e (io_count w + 1))"
    and r2: "json_5xx (search_response e (io_count w + 2))"
  shows "\<exists>st. gbif_attempts e c rad 1 s w =
     ([],
      s\<lparr>lastGBIFError := Some (NonOkStatus st),
        gbifCircuit := (gbifCircuit s)\<lparr>is_open := True,
          openUntil := Some (clock w + 750 + latency e (io_count w) + latency e (io_count w + 1)
                + latency e (io_count w + 2) + 6000 + \<lfloor>random e (rand_count w) * 250\<rfloor>
                + \<lfloor>random e (rand_count w + 1) * 250\<rfloor> + 120000),
          lastOpenedReason := Some Repeated5xx,
          consecutiveFailures := consecutiveFailures (gbifCircuit s) + 2\<rparr>\<rparr>,
      w\<lparr>clock := clock w + 750 + latency e (io_count w) + latency e (io_count w + 1)
                + latency e (io_count w + 2) + 6000 + \<lfloor>random e (rand_count w) * 250\<rfloor>
                + \<lfloor>random e (rand_count w + 1) * 250\<rfloor>,
        io_count := io_count w + 3, rand_count := rand_count w + 2\<rparr>)"
proof -
  from r0 obtain q0 where q0: "search_response e (io_count w) = Response q0" "500 \<le> status q0"
    "\<not> body_starts_lt q0" "str_includes (or_empty (content_type q0)) ''application/json''"
    by (auto simp: json_5xx_def split: fetch_result.splits)
  from r1 obtain q1 where q1: "search_response e (io_count w + 1) = Response q1" "500 \<le> status q1"
    "\<not> body_starts_lt q1" "str_includes (or_empty (content_type q1)) ''application/json''"
    by (auto simp: json_5xx_def split: fetch_result.splits)
  from r2 obtain q2 where q2: "search_response e (io_count w + 2) = Response q2" "500 \<le> status q2"
    "\<not> body_starts_lt q2" "str_includes (or_empty (content_type q2)) ''application/json''"
    by (auto simp: json_5xx_def split: fetch_result.splits)
  define s1 where "s1 = s\<lparr>lastGBIFError := Some (NonOkStatus (status q0)),
          gbifCircuit := (gbifCircuit s)\<lparr>consecutiveFailures := consecutiveFailures (gbifCircuit s) + 1\<rparr>\<rparr>"
  define w1 where "w1 = w\<lparr>clock := clock w + 250 + latency e (io_count w) + 1000 * 2 ^ 1
                    + \<lfloor>random e (rand_count w) * 250\<rfloor>,
          io_count := io_count w + 1, rand_count := rand_count w + 1\<rparr>"
  define s2 where "s2 = s1\<lparr>lastGBIFError := Some (NonOkStatus (status q1)),
          gbifCircuit := (gbifCircuit s1)\<lparr>consecutiveFailures := consecutiveFailures (gbifCircuit s1) + 1\<rparr>\<rparr>"
  define w2 where "w2 = w1\<lparr>clock := clock w1 + 250 + latency e (io_count w1) + 1000 * 2 ^ Suc 1
                    + \<lfloor>random e (rand_count w1) * 250\<rfloor>,
          io_count := io_count w1 + 1, rand_count := rand_count w1 + 1\<rparr>"
  have t1: "gbif_attempt e c rad 1 s w = Continue s1 w1"
    unfolding s1_def w1_def by (rule gbif_attempt_5xx_retry [OF q0]) (simp add: maxRetries_def)
  have q1': "search_response e (io_count w1) = Response q1" using q1(1) by (simp add: w1_def)
  have t2: "gbif_attempt e c rad (Suc 1) s1 w1 = Continue s2 w2"
    unfolding s2_def w2_def by (rule gbif_attempt_5xx_retry [OF q1' q1(2-4)]) (simp add: maxRetries_def)
  have q2': "search_response e (io_count w2) = Response q2" using q2(1) by (simp add: w2_def w1_def)
  have cf: "2 \<le> consecutiveFailures (gbifCircuit s2)" by (simp add: s2_def s1_def)
  have t3: "gbif_attempt e c rad (Suc (Suc 1)) s2 w2 =
     Return []
       (s2\<lparr>lastGBIFError := Some (NonOkStatus (status q2)),
               gbifCircuit := (gbifCircuit s2)\<lparr>is_open := True,
                 openUntil := Some (clock w2 + 250 + latency e (io_count w2) + 120000),
                 lastOpenedReason := Some Repeated5xx\<rparr>\<rparr>)
       (w2\<lparr>clock := clock w2 + 250 + latency e (io_count w2), io_count := io_count w2 + 1\<rparr>)"
    using gbif_attempt_5xx_last [OF q2' q2(2-4), of "Suc (Suc 1)" c rad s2] cf
    by (simp add: maxRetries_def)
  have "gbif_attempts e c rad 1 s w = gbif_attempts e c rad (Suc 1) s1 w1"
    by (rule attempts_continue [OF _ t1]) (simp add: maxRetries_def)
  also have "\<dots> = gbif_attempts e c rad (Suc (Suc 1)) s2 w2"
    by (rule attempts_continue [OF _ t2]) (simp add: maxRetries_def)
  also have "\<dots> = ([], s2\<lparr>lastGBIFError := Some (NonOkStatus (status q2)),
               gbifCircuit := (gbifCircuit s2)\<lparr>is_open := True,
                 openUntil := Some (clock w2 + 250 + latency e (io_count w2) + 120000),
                 lastOpenedReason := Some Repeated5xx\<rparr>\<rparr>,
       w2\<lparr>clock := clock w2 + 250 + latency e (io_count w2), io_count := io_count w2 + 1\<rparr>)"
    by (rule attempts_return [OF _ t3]) (simp add: maxRetries_def)
  finally show ?thesis
    by (intro exI [of _ "status q2"]) (simp add: s2_def s1_def w2_def w1_def add.commute add.left_commute)
qed

lemma json_5xx_server_error: "json_5xx server_error"
  by (simp add: json_5xx_def server_error_def json_response_def or_empty_def)

text \<open>
  Claim C4, as the code has it. When all three attempts of a call meet a server error
  (a status from 500 on, in a response with a JSON content type whose body does not start
  with \<^verbatim>\<open><\<close>), the call makes three requests, waits \<open>1000 \<sqdot> 2\<^sup>k\<close> ms plus a jitter of
  \<open>\<lfloor>250 \<sqdot> random\<rfloor>\<close> ms after the \<open>k\<close>-th of the first two, and counts one failure before each
  of the two retries. At the last attempt the count is therefore two or more, the
  circuit opens for two minutes from that moment, and the call returns the empty list.
\<close>

theorem repeated_5xx_opens_circuit:
  assumes "\<not> (is_open (gbifCircuit s) \<and> js_gt (openUntil (gbifCircuit s)) (clock w))"
    and "\<forall>k<3. json_5xx (search_response e (io_count w + k))"
  shows "case fetchFromGBIF e s w latitude longitude cls radius of
     (found, s', w') \<Rightarrow>
       found = [] \<and> io_count w' = io_count w + 3 \<and>
       clock w' = clock w
         + (250 + latency e (io_count w)) + (1000 * 2 + \<lfloor>random e (rand_count w) * 250\<rfloor>)
         + (250 + latency e (io_count w + 1)) + (1000 * 4 + \<lfloor>random e (rand_count w + 1) * 250\<rfloor>)
         + (250 + latency e (io_count w + 2)) \<and>
       consecutiveFailures (gbifCircuit s') =
         (if is_open (gbifCircuit s) \<and> js_le (openUntil (gbifCircuit s)) (clock w) then 0
          else consecutiveFailures (gbifCircuit s)) + 2 \<and>
       is_open (gbifCircuit s') \<and>
       openUntil (gbifCircuit s') = Some (clock w' + 2 * 60 * 1000)"
proof -
  from assms(2) have r: "json_5xx (search_response e (io_count w))"
    "json_5xx (search_response e (io_count w + 1))" "json_5xx (search_response e (io_count w + 2))"
    by (simp_all add: numeral_3_eq_3 less_Suc_eq)
  define s0 where "s0 = (if is_open (gbifCircuit s) \<and> js_le (openUntil (gbifCircuit s)) (clock w)
        then s\<lparr>lastGBIFError := None,
               gbifCircuit := (gbifCircuit s)\<lparr>is_open := False, consecutiveFailures := 0,
                                              lastOpenedReason := None\<rparr>\<rparr>
        else s\<lparr>lastGBIFError := None\<rparr>)"
  have cf0: "consecutiveFailures (gbifCircuit s0) =
      (if is_open (gbifCircuit s) \<and> js_le (openUntil (gbifCircuit s)) (clock w) then 0
       else consecutiveFailures (gbifCircuit s))"
    by (simp add: s0_def)
  have eq: "fetchFromGBIF e s w latitude longitude cls radius = gbif_attempts e cls radius 1 s0 w"
    unfolding s0_def by (rule fetchFromGBIF_passes [OF assms(1)])
  from three_5xx_turns [OF r, of cls radius s0] obtain st where
    "gbif_attempts e cls radius 1 s0 w =
     ([],
      s0\<lparr>lastGBIFError := Some (NonOkStatus st),
        gbifCircuit := (gbifCircuit s0)\<lparr>is_open := True,
          openUntil := Some (clock w + 750 + latency e (io_count w) + latency e (io_count w + 1)
                + latency e (io_count w + 2) + 6000 + \<lfloor>random e (rand_count w) * 250\<rfloor>
                + \<lfloor>random e (rand_count w + 1) * 250\<rfloor> + 120000),
          lastOpenedReason := Some Repeated5xx,
          consecutiveFailures := consecutiveFailures (gbifCircuit s0) + 2\<rparr>\<rparr>,
      w\<lparr>clock := clock w + 750 + latency e (io_count w) + latency e (io_count w + 1)
                + latency e (io_count w + 2) + 6000 + \<lfloor>random e (rand_count w) * 250\<rfloor>
                + \<lfloor>random e (rand_count w + 1) * 250\<rfloor>,
        io_count := io_count w + 3, rand_count := rand_count w + 2\<rparr>)"
    by blast
  then show ?thesis
    unfolding eq by (simp add: cf0)
qed

theorem repeated_5xx_witness:
  "case fetchFromGBIF (const_env server_error) (new_service None) start_world 34 (-117) birds 50 of
     (found, s', w') \<Rightarrow>
       found = [] \<and> io_count w' = 3 \<and> clock w' = 1700000007120 \<and>
       consecutiveFailures (gbifCircuit s') = 2 \<and> is_open (gbifCircuit s') \<and>
       openUntil (gbifCircuit s') = Some 1700000127120"
  using repeated_5xx_opens_circuit [of "new_service None" start_world "const_env server_error"
      34 "-117" birds 50]
  by (simp add: split_beta json_5xx_server_error const_env_def new_service_def start_world_def
      js_gt_def js_le_def)

text \<open>
  Claim C4 as stated has the failure counted once, when the attempts are exhausted, so
  that a first exhausted call would leave the count at one and the circuit closed. On a
  fresh service whose three attempts all meet status 503, the count is not one more than
  before (it is two), and the circuit is open.
\<close>

theorem single_exhaustion_counterexample:
  "consecutiveFailures (gbifCircuit (fst (snd
      (fetchFromGBIF (const_env server_error) (new_service None) start_world 34 (-117) birds 50))))
     \<noteq> consecutiveFailures (gbifCircuit (new_service None)) + 1 \<and>
   is_open (gbifCircuit (fst (snd
      (fetchFromGBIF (const_env server_error) (new_service None) start_world 34 (-117) birds 50))))"
  by code_simp

subsection \<open>Upstream client: success\<close>

text \<open>A first attempt that succeeds clears the diagnostic and leaves the count of
  failures as the short-circuit check left it.\<close>

lemma success_at_first_attempt:
  assumes "\<not> (is_open (gbifCircuit s) \<and> js_gt (openUntil (gbifCircuit s)) (clock w))"
    and "search_response e (io_count w) = Response r"
    and "200 \<le> status r" and "status r \<le> 299"
    and "\<not> body_starts_lt r" and "str_includes (or_empty (content_type r)) ''application/json''"
    and "body_json r = Some (Results results)"
  shows "lastGBIFError (fst (snd (fetchFromGBIF e s w la lo c rad))) = None"
    and "consecutiveFailures (gbifCircuit (fst (snd (fetchFromGBIF e s w la lo c rad)))) =
           (if is_open (gbifCircuit s) \<and> js_le (openUntil (gbifCircuit s)) (clock w) then 0
            else consecutiveFailures (gbifCircuit s))"
proof -
  define s0 where "s0 = (if is_open (gbifCircuit s) \<and> js_le (openUntil (gbifCircuit s)) (clock w)
        then s\<lparr>lastGBIFError := None,
               gbifCircuit := (gbifCircuit s)\<lparr>is_open := False, consecutiveFailures := 0,
                                              lastOpenedReason := None\<rparr>\<rparr>
        else s\<lparr>lastGBIFError := None\<rparr>)"
  have eq: "fetchFromGBIF e s w la lo c rad = gbif_attempts e c rad 1 s0 w"
    unfolding s0_def by (rule fetchFromGBIF_passes [OF assms(1)])
  define w1 where "w1 = snd (network_request e (sleep 250 w))"
  have t: "gbif_attempt e c rad 1 s0 w =
      Return (fst (process_results e c rad w1 results)) (s0\<lparr>lastGBIFError := None\<rparr>)
        (snd (process_results e c rad w1 results))"
    using assms(2-7)
    by (simp add: gbif_attempt_def w1_def network_request_def sleep_def split_beta Let_def)
  have run: "gbif_attempts e c rad 1 s0 w =
      (fst (process_results e c rad w1 results), s0\<lparr>lastGBIFError := None\<rparr>,
       snd (process_results e c rad w1 results))"
    by (rule attempts_return [OF _ t]) (simp add: maxRetries_def)
  show "lastGBIFError (fst (snd (fetchFromGBIF e s w la lo c rad))) = None"
    unfolding eq run by simp
  show "consecutiveFailures (gbifCircuit (fst (snd (fetchFromGBIF e s w la lo c rad)))) =
           (if is_open (gbifCircuit s) \<and> js_le (openUntil (gbifCircuit s)) (clock w) then 0
            else consecutiveFailures (gbifCircuit s))"
    unfolding eq run by (simp add: s0_def)
qed

text \<open>
  Claim C5. A call whose first attempt meets status 503 and whose second attempt succeeds
  returns the species of the response and clears the diagnostic, but the failure that the
  first attempt counted stays in \<^verbatim>\<open>consecutiveFailures\<close>: the success does not reset it.
\<close>

theorem success_leaves_failure_count:
  "case fetchFromGBIF flaky (new_service None) start_world 34 (-117) birds 50 of
     (found, s', w') \<Rightarrow>
       map name found = [''American Robin''] \<and> lastGBIFError s' = None \<and>
       consecutiveFailures (gbifCircuit s') = 1 \<and> io_count w' = 2"
  by code_simp

subsection \<open>Fallback cascade\<close>

lemma getGlobalFallback_nonempty: "getGlobalFallback animalType \<noteq> []"
  by (simp add: getGlobalFallback_def globalFallbacks_def Let_def)

lemma slice0_nonempty: "1 \<le> count \<Longrightarrow> xs \<noteq> [] \<Longrightarrow> slice0 count xs \<noteq> []"
  by (cases xs) (auto simp: slice0_def take_Cons split: nat.splits)

text \<open>The resolution returns a list that is not empty, whatever the cache holds and
  whatever the upstream requests meet: a cache entry that is used is not empty, a tier
  that returns early has reached the count, and the last tier appends the global table.\<close>

lemma getSpeciesForClass_nonempty:
  assumes "1 \<le> count"
  shows "fst (getSpeciesForClass e s w latitude longitude taxonomicClass count) \<noteq> []"
proof (cases "case getCachedEntry s latitude longitude taxonomicClass of
              Some cachedEntry \<Rightarrow> if entry_species cachedEntry \<noteq> [] then Some cachedEntry else None
            | None \<Rightarrow> None")
  case (Some cachedEntry)
  then have "entry_species cachedEntry \<noteq> []"
    by (auto split: option.splits if_splits)
  with assms have "slice0 count (entry_species cachedEntry) \<noteq> []"
    by (rule slice0_nonempty)
  with Some show ?thesis by (simp add: getSpeciesForClass_def)
next
  case None
  show ?thesis
    unfolding getSpeciesForClass_def None
    using assms getGlobalFallback_nonempty [of "cls_name taxonomicClass"]
    by (auto simp: split_beta Let_def)
qed

text \<open>The last tier: with no usable cache entry, and the two upstream requests and the
  regional table together short of the count, the result is what the wider request found,
  then the regional table, then the global table of the class; and that list goes into
  the cache.\<close>

lemma global_table_is_appended:
  assumes miss: "case getCachedEntry s latitude longitude taxonomicClass of
                   None \<Rightarrow> True | Some entry \<Rightarrow> entry_species entry = []"
    and f1: "fetchFromGBIF e s w latitude longitude taxonomicClass 50 = (found1, s1, w1)"
    and f2: "fetchFromGBIF e s1 w1 latitude longitude taxonomicClass 200 = (found2, s2, w2)"
    and l1: "int (length found1) < count"
    and l2: "int (length found2) +
             int (length (getRegionalFallback latitude longitude (cls_name taxonomicClass))) < count"
  shows "getSpeciesForClass e s w latitude longitude taxonomicClass count =
           (found2 @ getRegionalFallback latitude longitude (cls_name taxonomicClass)
              @ getGlobalFallback (cls_name taxonomicClass),
            cacheSpecies (clock w2) s2 latitude longitude taxonomicClass
              (found2 @ getRegionalFallback latitude longitude (cls_name taxonomicClass)
                 @ getGlobalFallback (cls_name taxonomicClass)),
            w2)"
proof -
  define reg where "reg = getRegionalFallback latitude longitude (cls_name taxonomicClass)"
  from miss have miss': "(case getCachedEntry s latitude longitude taxonomicClass of
              Some cachedEntry \<Rightarrow> if entry_species cachedEntry \<noteq> [] then Some cachedEntry else None
            | None \<Rightarrow> None) = None"
    by (auto split: option.splits)
  from l1 have n1: "\<not> count \<le> int (length found1)" by simp
  from l2 have n2: "\<not> count \<le> int (length found2)"
    and n3: "\<not> count \<le> int (length found2) + int (length reg)"
    by (simp_all add: reg_def)
  show ?thesis
    unfolding getSpeciesForClass_def miss' reg_def [symmetric]
    using n1 n2 n3 by (simp add: f1 f2 Let_def)
qed

text \<open>
  Claim C1. For every place, every class of the registry and every desired count of at
  least one, the resolution returns a list that is not empty. And whenever the cache
  (no entry for the place, or an empty one), the request within 50 km (fewer species
  than the count), and the request within 200 km together with the regional table
  (fewer than the count) under-deliver, the result is the species of the wider request,
  then the regional table, then the global table of the class, which is not empty; the
  service caches that list for the place.
\<close>

theorem resolution_never_empty:
  assumes "taxonomicClass \<in> set taxonomicClasses" and "1 \<le> count"
  shows
   "fst (getSpeciesForClass e s w latitude longitude taxonomicClass count) \<noteq> [] \<and>
    (case fetchFromGBIF e s w latitude longitude taxonomicClass 50 of
       (found1, s1, w1) \<Rightarrow>
         (case fetchFromGBIF e s1 w1 latitude longitude taxonomicClass 200 of
            (found2, s2, w2) \<Rightarrow>
              (case getCachedEntry s latitude longitude taxonomicClass of
                 None \<Rightarrow> True | Some entry \<Rightarrow> entry_species entry = []) \<and>
              int (length found1) < count \<and>
              int (length found2) +
                int (length (getRegionalFallback latitude longitude (cls_name taxonomicClass))) < count
              \<longrightarrow>
                getGlobalFallback (cls_name taxonomicClass) \<noteq> [] \<and>
                getSpeciesForClass e s w latitude longitude taxonomicClass count =
                  (found2 @ getRegionalFallback latitude longitude (cls_name taxonomicClass)
                     @ getGlobalFallback (cls_name taxonomicClass),
                   cacheSpecies (clock w2) s2 latitude longitude taxonomicClass
                     (found2 @ getRegionalFallback latitude longitude (cls_name taxonomicClass)
                        @ getGlobalFallback (cls_name taxonomicClass)),
                   w2)))"
proof (rule conjI)
  from assms(2) show "fst (getSpeciesForClass e s w latitude longitude taxonomicClass count) \<noteq> []"
    by (rule getSpeciesForClass_nonempty)
next
  obtain found1 s1 w1 where
    f1: "fetchFromGBIF e s w latitude longitude taxonomicClass 50 = (found1, s1, w1)"
    by (metis prod_cases3)
  obtain found2 s2 w2 where
    f2: "fetchFromGBIF e s1 w1 latitude longitude taxonomicClass 200 = (found2, s2, w2)"
    by (metis prod_cases3)
  show "case fetchFromGBIF e s w latitude longitude taxonomicClass 50 of
       (found1, s1, w1) \<Rightarrow>
         (case fetchFromGBIF e s1 w1 latitude longitude taxonomicClass 200 of
            (found2, s2, w2) \<Rightarrow>
              (case getCachedEntry s latitude longitude taxonomicClass of
                 None \<Rightarrow> True | Some entry \<Rightarrow> entry_species entry = []) \<and>
              int (length found1) < count \<and>
              int (length found2) +
                int (length (getRegionalFallback latitude longitude (cls_name taxonomicClass))) < count
              \<longrightarrow>
                getGlobalFallback (cls_name taxonomicClass) \<noteq> [] \<and>
                getSpeciesForClass e s w latitude longitude taxonomicClass count =
                  (found2 @ getRegionalFallback latitude longitude (cls_name taxonomicClass)
                     @ getGlobalFallback (cls_name taxonomicClass),
                   cacheSpecies (clock w2) s2 latitude longitude taxonomicClass
                     (found2 @ getRegionalFallback latitude longitude (cls_name taxonomicClass)
                        @ getGlobalFallback (cls_name taxonomicClass)),
                   w2))"
    unfolding f1 prod.case f2
    using global_table_is_appended [OF _ f1 f2] getGlobalFallback_nonempty
    by blast
qed

text \<open>Every request rejected: each of the two upstream calls gives up after three
  requests. At the open-ocean place \<open>(0, -160)\<close> no region matches, and the global table of
  the birds is all there is; at \<open>(34, -117)\<close>, asked for fifty birds, the four of the regional
  table come first and the five of the global table follow.\<close>

lemma offline_first:
  "fetchFromGBIF (const_env Rejected) (new_service None) start_world latitude longitude birds 50
     = ([], (new_service None)\<lparr>lastGBIFError := Some FetchException\<rparr>,
        start_world\<lparr>clock := 1700000003870, io_count := 3\<rparr>)"
proof -
  have "fetchFromGBIF (const_env Rejected) (new_service None) start_world 0 0 birds 50
     = ([], (new_service None)\<lparr>lastGBIFError := Some FetchException\<rparr>,
        start_world\<lparr>clock := 1700000003870, io_count := 3\<rparr>)"
    by code_simp
  then show ?thesis unfolding fetchFromGBIF_def .
qed

lemma offline_second:
  "fst (fetchFromGBIF (const_env Rejected) ((new_service None)\<lparr>lastGBIFError := Some FetchException\<rparr>)
        (start_world\<lparr>clock := 1700000003870, io_count := 3\<rparr>) latitude longitude birds 200) = []"
proof -
  have "fst (fetchFromGBIF (const_env Rejected) ((new_service None)\<lparr>lastGBIFError := Some FetchException\<rparr>)
        (start_world\<lparr>clock := 1700000003870, io_count := 3\<rparr>) 0 0 birds 200) = []"
    by code_simp
  then show ?thesis unfolding fetchFromGBIF_def .
qed

lemma no_region: "getRegionalFallback 0 (-160) ''birds'' = []"
  by (simp add: getRegionalFallback_def regionalFallbacks_def)

lemma california_birds:
  "map name (getRegionalFallback 34 (-117) ''birds'')
     = [''Anna'' @ [CHR 0x27] @ ''s Hummingbird'', ''California Scrub-jay'', ''Western Bluebird'',
        ''Red-tailed Hawk'']"
  by (simp add: getRegionalFallback_def regionalFallbacks_def Let_def) code_simp

lemma global_birds:
  "map name (getGlobalFallback ''birds'')
     = [''House Sparrow'', ''Rock Dove'', ''European Starling'', ''House Finch'', ''American Robin'']"
  by code_simp

theorem resolution_never_empty_witness:
  "birds \<in> set taxonomicClasses \<and> (1::int) \<le> 5 \<and>
   getCachedEntry (new_service None) 0 (-160) birds = None \<and>
   fst (fetchFromGBIF (const_env Rejected) (new_service None) start_world 0 (-160) birds 50) = [] \<and>
   getRegionalFallback 0 (-160) (cls_name birds) = [] \<and>
   fst (getSpeciesForClass (const_env Rejected) (new_service None) start_world 0 (-160) birds 5) \<noteq> [] \<and>
   map name (fst (getSpeciesForClass (const_env Rejected) (new_service None) start_world 0 (-160) birds 5))
     = [''House Sparrow'', ''Rock Dove'', ''European Starling'', ''House Finch'', ''American Robin''] \<and>
   map name (fst (getSpeciesForClass (const_env Rejected) (new_service None) start_world 34 (-117) birds 50))
     = [''Anna'' @ [CHR 0x27] @ ''s Hummingbird'', ''California Scrub-jay'', ''Western Bluebird'',
        ''Red-tailed Hawk'',
        ''House Sparrow'', ''Rock Dove'', ''European Starling'', ''House Finch'', ''American Robin'']"
proof -
  have reg: "birds \<in> set taxonomicClasses" by (simp add: birds_def taxonomicClasses_def)
  have cn: "cls_name birds = ''birds''" by (simp add: birds_def)
  have miss: "getCachedEntry (new_service None) latitude longitude birds = None" for latitude longitude
    by (simp add: getCachedEntry_def new_service_def)
  obtain found2 s2 w2 where f2:
    "fetchFromGBIF (const_env Rejected) ((new_service None)\<lparr>lastGBIFError := Some FetchException\<rparr>)
        (start_world\<lparr>clock := 1700000003870, io_count := 3\<rparr>) 0 (-160) birds 200 = (found2, s2, w2)"
    by (metis prod_cases3)
  with offline_second [of 0 "-160"] have e2: "found2 = []" by simp
  from resolution_never_empty [OF reg, of 5 "const_env Rejected" "new_service None" start_world 0 "-160"]
  have "fst (getSpeciesForClass (const_env Rejected) (new_service None) start_world 0 (-160) birds 5) \<noteq> []"
    and "fst (getSpeciesForClass (const_env Rejected) (new_service None) start_world 0 (-160) birds 5)
         = getGlobalFallback ''birds''"
    by (simp_all add: offline_first f2 e2 miss no_region cn)
  then have ocean:
    "fst (getSpeciesForClass (const_env Rejected) (new_service None) start_world 0 (-160) birds 5) \<noteq> []"
    "map name (fst (getSpeciesForClass (const_env Rejected) (new_service None) start_world 0 (-160) birds 5))
     = [''House Sparrow'', ''Rock Dove'', ''European Starling'', ''House Finch'', ''American Robin'']"
    by (simp_all add: global_birds)
  obtain found3 s3 w3 where f3:
    "fetchFromGBIF (const_env Rejected) ((new_service None)\<lparr>lastGBIFError := Some FetchException\<rparr>)
        (start_world\<lparr>clock := 1700000003870, io_count := 3\<rparr>) 34 (-117) birds 200 = (found3, s3, w3)"
    by (metis prod_cases3)
  with offline_second [of 34 "-117"] have e3: "found3 = []" by simp
  have "length (map name (getRegionalFallback 34 (-117) ''birds'')) = 4"
    by (simp only: california_birds) simp
  then have four: "length (getRegionalFallback 34 (-117) ''birds'') = 4"
    by (simp only: length_map)
  from resolution_never_empty [OF reg, of 50 "const_env Rejected" "new_service None" start_world 34 "-117"]
  have "fst (getSpeciesForClass (const_env Rejected) (new_service None) start_world 34 (-117) birds 50)
         = getRegionalFallback 34 (-117) ''birds'' @ getGlobalFallback ''birds''"
    by (simp add: offline_first f3 e3 miss cn four)
  then have coast:
    "map name (fst (getSpeciesForClass (const_env Rejected) (new_service None) start_world 34 (-117) birds 50))
     = [''Anna'' @ [CHR 0x27] @ ''s Hummingbird'', ''California Scrub-jay'', ''Western Bluebird'',
        ''Red-tailed Hawk'',
        ''House Sparrow'', ''Rock Dove'', ''European Starling'', ''House Finch'', ''American Robin'']"
    by (simp add: california_birds global_birds)
  from reg miss [of 0 "-160"] ocean coast show ?thesis
    by (simp add: offline_first no_region cn)
qed

lemma length_fetch_classes:
  "length (fst (fetch_classes e la lo c cs s w)) = length cs"
  by (induction cs arbitrary: s w) (simp_all add: split_beta Let_def)

lemma no_class_named:
  "a \<notin> {''birds'', ''mammals'', ''fish'', ''reptiles'', ''amphibians''} \<Longrightarrow>
   filter (\<lambda>cls. cls_name cls = a) taxonomicClasses = []"
  by (auto simp: taxonomicClasses_def)

text \<open>
  Claim C10, amended. For every place and count, \<^verbatim>\<open>getSpeciesForMeditation\<close> called with a
  type that is a string, is not empty and is none of the five class names returns the
  empty list and changes neither the service nor the world: no class is fetched, no
  request is made, no fallback tier runs.
\<close>

theorem unknown_type_gives_empty_list:
  assumes "animalType \<noteq> []"
    and "animalType \<notin> {''birds'', ''mammals'', ''fish'', ''reptiles'', ''amphibians''}"
  shows "getSpeciesForMeditation e s w latitude longitude (Some animalType) count
           = (SpeciesList [], s, w)"
  using assms by (simp add: getSpeciesForMeditation_def truthy_def or_empty_def no_class_named)

theorem unknown_type_witness:
  "getSpeciesForMeditation (const_env Rejected) (new_service None) start_world 34 (-117) (Some ''bird'') 5
     = (SpeciesList [], new_service None, start_world)"
  using unknown_type_gives_empty_list [of "''bird''"] by simp

text \<open>
  Claim C10 as stated covers the empty string, which is a string, is not \<^verbatim>\<open>null\<close> and is
  none of the five names. The method tests the type for truthiness, so it takes the empty
  string like \<^verbatim>\<open>null\<close>: it fetches all five classes and returns one result for each, not
  the empty list.
\<close>

theorem empty_type_counterexample:
  "fst (getSpeciesForMeditation (const_env Rejected) (new_service None) start_world 34 (-117) (Some []) 5)
     \<noteq> SpeciesList []"
  by (simp add: getSpeciesForMeditation_def truthy_def split_beta)

lemma empty_type_fetches_all_classes:
  "case fst (getSpeciesForMeditation e s w latitude longitude (Some []) count) of
     ClassResults results \<Rightarrow> map res_type results = map cls_name taxonomicClasses
   | SpeciesList found \<Rightarrow> False"
proof -
  have "map res_type (fst (fetch_classes e la lo c cs s w)) = map cls_name cs" for la lo c cs s w
    by (induction cs arbitrary: s w) (simp_all add: split_beta Let_def)
  then show ?thesis
    by (simp add: getSpeciesForMeditation_def truthy_def split_beta)
qed

subsection \<open>Location-clustered cache\<close>

lemma endsWith_suffix: "endsWith s t \<longleftrightarrow> suffix t s"
proof
  assume "endsWith s t"
  then have "s = take (length s - length t) s @ t"
    by (metis append_take_drop_id endsWith_def)
  then show "suffix t s" by (metis suffixI)
next
  assume "suffix t s"
  then obtain zs where "s = zs @ t" by (auto simp: suffix_def)
  then show "endsWith s t" by (simp add: endsWith_def)
qed

lemma class_suffix_unique:
  assumes "suffix (CHR ''_'' # n) k" and "suffix (CHR ''_'' # n') k"
    and "CHR ''_'' \<notin> set n" and "CHR ''_'' \<notin> set n'"
  shows "n = n'"
proof -
  have aux: "a = b" if "suffix (CHR ''_'' # a) (CHR ''_'' # b)" "CHR ''_'' \<notin> set b" for a b
  proof -
    from that(1) have "CHR ''_'' # a = CHR ''_'' # b \<or> suffix (CHR ''_'' # a) b"
      by (simp add: suffix_Cons)
    moreover have "\<not> suffix (CHR ''_'' # a) b"
    proof
      assume "suffix (CHR ''_'' # a) b"
      then have "set (CHR ''_'' # a) \<subseteq> set b" by (rule set_mono_suffix)
      with that(2) show False by simp
    qed
    ultimately show ?thesis by simp
  qed
  from assms(1,2) have "suffix (CHR ''_'' # n) (CHR ''_'' # n') \<or> suffix (CHR ''_'' # n') (CHR ''_'' # n)"
    by (rule suffix_same_cases)
  with aux assms(3,4) show ?thesis by metis
qed

lemma registry_names: "c \<in> set taxonomicClasses \<Longrightarrow> CHR ''_'' \<notin> set (cls_name c)"
  by (auto simp: taxonomicClasses_def)

lemma key_belongs: "endsWith (generateLocationKey la lo c) (''_'' @ cls_name c)"
  by (simp add: endsWith_suffix generateLocationKey_def suffix_def)

lemma one_class_per_key:
  assumes "c \<in> set taxonomicClasses" and "c' \<in> set taxonomicClasses"
    and "endsWith k (''_'' @ cls_name c)" and "endsWith k (''_'' @ cls_name c')"
  shows "cls_name c = cls_name c'"
  using assms class_suffix_unique [of "cls_name c" k "cls_name c'"]
  by (simp add: endsWith_suffix registry_names)

lemma classKeys_entries: "classKeys m n = map fst (class_entries m n)"
  by (simp add: classKeys_def class_entries_def filter_map comp_def)

lemma map_fst_map_set:
  "map fst (map_set k v m) = (if k \<in> fst ` set m then map fst m else map fst m @ [k])"
  by (induction m) auto

lemma map_set_new: "k \<notin> fst ` set m \<Longrightarrow> map_set k v m = m @ [(k, v)]"
  by (induction m) auto

lemma distinct_map_set: "distinct (map fst m) \<Longrightarrow> distinct (map fst (map_set k v m))"
  by (simp add: map_fst_map_set)

lemma distinct_map_delete: "distinct (map fst m) \<Longrightarrow> distinct (map fst (map_delete k m))"
  by (simp add: map_delete_def distinct_map_filter)

lemma classKeys_map_delete:
  "classKeys (map_delete k m) n = filter (\<lambda>x. x \<noteq> k) (classKeys m n)"
  by (induction m) (auto simp: classKeys_def map_delete_def)

lemma classKeys_map_set:
  "classKeys (map_set k v m) n =
     (if k \<in> fst ` set m \<or> \<not> endsWith k (''_'' @ n) then classKeys m n else classKeys m n @ [k])"
  by (simp add: classKeys_def map_fst_map_set)

lemma filter_absent: "k \<notin> set xs \<Longrightarrow> filter (\<lambda>x. x \<noteq> k) xs = xs"
  by (induction xs) auto

lemma length_filter_remove:
  "distinct xs \<Longrightarrow> k \<in> set xs \<Longrightarrow> Suc (length (filter (\<lambda>x. x \<noteq> k) xs)) = length xs"
  by (induction xs) (auto simp: filter_absent)

lemma cache_cacheSpecies:
  "cache (cacheSpecies now s la lo c spp) =
     map_set (generateLocationKey la lo c) (new_cache_entry now la lo c spp)
       (if maxCacheSize \<le> length (classKeys (cache s) (cls_name c))
        then (case classKeys (cache s) (cls_name c) of
                oldestKey # _ \<Rightarrow> map_delete oldestKey (cache s) | [] \<Rightarrow> cache s)
        else cache s)"
  by (simp add: cacheSpecies_def Let_def)

lemma distinct_classKeys: "distinct (map fst m) \<Longrightarrow> distinct (classKeys m n)"
  by (simp add: classKeys_def)

lemma cache_ok_cacheSpecies:
  assumes ok: "cache_ok s" and cls: "c \<in> set taxonomicClasses"
  shows "cache_ok (cacheSpecies now s la lo c spp)"
proof -
  define key where "key = generateLocationKey la lo c"
  define keys where "keys = classKeys (cache s) (cls_name c)"
  define m1 where "m1 = (if maxCacheSize \<le> length keys
      then (case keys of oldestKey # _ \<Rightarrow> map_delete oldestKey (cache s) | [] \<Rightarrow> cache s)
      else cache s)"
  define v where "v = new_cache_entry now la lo c spp"
  have c': "cache (cacheSpecies now s la lo c spp) = map_set key v m1"
    by (simp add: cache_cacheSpecies key_def keys_def m1_def v_def)
  from ok have d: "distinct (map fst (cache s))" by (simp add: cache_ok_def)
  have d1: "distinct (map fst m1)"
    using d by (auto simp: m1_def distinct_map_delete split: list.splits)
  have le1: "length (classKeys m1 n) \<le> length (classKeys (cache s) n)" for n
    by (auto simp: m1_def classKeys_map_delete split: list.splits)
  have own: "length (classKeys m1 (cls_name c)) < maxCacheSize"
  proof (cases "maxCacheSize \<le> length keys")
    case False
    then show ?thesis by (simp add: m1_def keys_def)
  next
    case True
    then obtain k ks where ks: "keys = k # ks" by (cases keys) (auto simp: maxCacheSize_def)
    have "distinct keys" unfolding keys_def by (rule distinct_classKeys [OF d])
    then have "Suc (length (filter (\<lambda>x. x \<noteq> k) keys)) = length keys"
      by (rule length_filter_remove) (simp add: ks)
    moreover from ok cls have "length keys \<le> maxCacheSize" by (simp add: cache_ok_def keys_def)
    ultimately show ?thesis
      using True by (simp add: m1_def ks classKeys_map_delete keys_def [symmetric])
  qed
  have bound: "length (classKeys (map_set key v m1) (cls_name c')) \<le> maxCacheSize"
    if c'': "c' \<in> set taxonomicClasses" for c'
  proof (cases "cls_name c' = cls_name c")
    case True
    with own show ?thesis by (auto simp: classKeys_map_set)
  next
    case False
    with one_class_per_key [OF cls c'' key_belongs [of la lo c]]
    have "\<not> endsWith key (''_'' @ cls_name c')" by (auto simp: key_def)
    then have "classKeys (map_set key v m1) (cls_name c') = classKeys m1 (cls_name c')"
      by (simp add: classKeys_map_set)
    moreover from ok c'' have "length (classKeys (cache s) (cls_name c')) \<le> maxCacheSize"
      by (simp add: cache_ok_def)
    ultimately show ?thesis using le1 [of "cls_name c'"] by simp
  qed
  from d1 bound show ?thesis
    by (simp add: cache_ok_def c' distinct_map_set)
qed

lemma filter_head_key:
  "distinct (map fst (x # xs)) \<Longrightarrow> filter (\<lambda>p. fst p \<noteq> fst x) (x # xs) = xs"
  by (auto simp: filter_id_conv image_iff)

lemma length_map_delete:
  assumes "distinct (map fst m)" and "k \<in> fst ` set m"
  shows "Suc (length (map_delete k m)) = length m"
proof -
  have "length (map_delete k m) = length (filter (\<lambda>x. x \<noteq> k) (map fst m))"
    by (simp add: map_delete_def filter_map comp_def)
  with length_filter_remove [OF assms(1), of k] assms(2) show ?thesis by simp
qed

lemma eviction_step:
  assumes d: "distinct (map fst (cache s))" and cls: "c \<in> set taxonomicClasses"
    and full: "length (classKeys (cache s) (cls_name c)) = maxCacheSize"
    and new: "generateLocationKey la lo c \<notin> fst ` set (cache s)"
  shows "cache (cacheSpecies now s la lo c spp) =
           map_delete (hd (classKeys (cache s) (cls_name c))) (cache s)
           @ [(generateLocationKey la lo c, new_cache_entry now la lo c spp)]"
    and "class_entries (cache (cacheSpecies now s la lo c spp)) (cls_name c) =
           tl (class_entries (cache s) (cls_name c))
           @ [(generateLocationKey la lo c, new_cache_entry now la lo c spp)]"
    and "\<forall>c' \<in> set taxonomicClasses. cls_name c' \<noteq> cls_name c \<longrightarrow>
           class_entries (cache (cacheSpecies now s la lo c spp)) (cls_name c')
             = class_entries (cache s) (cls_name c')"
    and "length (cache (cacheSpecies now s la lo c spp)) = length (cache s)"
    and "evictions (cacheStats (cacheSpecies now s la lo c spp)) = evictions (cacheStats s) + 1"
proof -
  define key where "key = generateLocationKey la lo c"
  define v where "v = new_cache_entry now la lo c spp"
  define es where "es = class_entries (cache s) (cls_name c)"
  from full have "es \<noteq> []"
    by (auto simp: es_def classKeys_entries maxCacheSize_def)
  then obtain x xs where es: "es = x # xs" by (cases es) auto
  define oldest where "oldest = fst x"
  have keys: "classKeys (cache s) (cls_name c) = oldest # map fst xs"
    by (simp add: classKeys_entries es_def [symmetric] es oldest_def)
  have x_in: "x \<in> set (cache s)" and x_cls: "endsWith oldest (''_'' @ cls_name c)"
    using es by (auto simp: es_def class_entries_def oldest_def filter_eq_Cons_iff)
  have knew: "key \<notin> fst ` set (map_delete oldest (cache s))"
    using new by (auto simp: key_def map_delete_def)
  show c1: "cache (cacheSpecies now s la lo c spp) =
      map_delete (hd (classKeys (cache s) (cls_name c))) (cache s)
      @ [(generateLocationKey la lo c, new_cache_entry now la lo c spp)]"
    using full knew
    by (simp add: cache_cacheSpecies keys map_set_new key_def [symmetric])
  have des: "distinct (map fst es)"
    unfolding es_def class_entries_def using d by (simp add: distinct_map_filter)
  have "class_entries (map_delete oldest (cache s)) (cls_name c)
          = filter (\<lambda>p. fst p \<noteq> oldest) es"
    by (auto simp: class_entries_def map_delete_def es_def intro: filter_cong)
  also have "\<dots> = xs"
    using des unfolding es oldest_def by (rule filter_head_key)
  finally have rest: "class_entries (map_delete oldest (cache s)) (cls_name c) = tl es"
    by (simp add: es)
  show "class_entries (cache (cacheSpecies now s la lo c spp)) (cls_name c) =
      tl (class_entries (cache s) (cls_name c))
      @ [(generateLocationKey la lo c, new_cache_entry now la lo c spp)]"
    using rest key_belongs [of la lo c]
    by (simp add: c1 keys es_def [symmetric]) (simp add: class_entries_def)
  show "\<forall>c' \<in> set taxonomicClasses. cls_name c' \<noteq> cls_name c \<longrightarrow>
      class_entries (cache (cacheSpecies now s la lo c spp)) (cls_name c')
        = class_entries (cache s) (cls_name c')"
  proof (intro ballI impI)
    fix c' assume c': "c' \<in> set taxonomicClasses" and ne: "cls_name c' \<noteq> cls_name c"
    from one_class_per_key [OF cls c' key_belongs [of la lo c]] ne
    have nk: "\<not> endsWith (generateLocationKey la lo c) (''_'' @ cls_name c')" by auto
    from one_class_per_key [OF cls c' x_cls] ne
    have no: "\<not> endsWith oldest (''_'' @ cls_name c')" by auto
    have "class_entries (map_delete oldest (cache s)) (cls_name c')
            = class_entries (cache s) (cls_name c')"
      using no by (auto simp: class_entries_def map_delete_def intro: filter_cong)
    with nk show "class_entries (cache (cacheSpecies now s la lo c spp)) (cls_name c')
        = class_entries (cache s) (cls_name c')"
      by (simp add: c1 keys) (simp add: class_entries_def)
  qed
  have "oldest \<in> fst ` set (cache s)" using x_in by (auto simp: oldest_def)
  from length_map_delete [OF d this]
  show "length (cache (cacheSpecies now s la lo c spp)) = length (cache s)"
    by (simp add: c1 keys)
  show "evictions (cacheStats (cacheSpecies now s la lo c spp)) = evictions (cacheStats s) + 1"
    using full by (simp add: cacheSpecies_def Let_def)
qed

lemma cache_ok_cong: "cache s = cache s' \<Longrightarrow> cache_ok s = cache_ok s'"
  by (simp add: cache_ok_def)

lemma cache_gbif_attempt:
  "(gbif_attempt e c rad a s w = Return found s1 w1 \<longrightarrow> cache s1 = cache s) \<and>
   (gbif_attempt e c rad a s w = Continue s1 w1 \<longrightarrow> cache s1 = cache s)"
  by (auto simp: gbif_attempt_def split_beta Let_def add_failure_def
      split: fetch_result.splits option.splits payload.splits if_splits)

lemma cache_gbif_attempts:
  "cache (fst (snd (gbif_attempts e c rad a s w))) = cache s"
proof (induction e c rad a s w rule: gbif_attempts.induct)
  case (1 e c rad a s w)
  show ?case
  proof (cases "maxRetries < a")
    case True
    then show ?thesis by (subst gbif_attempts.simps) simp
  next
    case False
    show ?thesis
    proof (cases "gbif_attempt e c rad a s w")
      case (Return found s1 w1)
      with False cache_gbif_attempt [of e c rad a s w found s1 w1] show ?thesis
        by (subst gbif_attempts.simps) simp
    next
      case (Continue s1 w1)
      with False 1 have "cache (fst (snd (gbif_attempts e c rad (a + 1) s1 w1))) = cache s1"
        by simp
      with False Continue cache_gbif_attempt [of e c rad a s w _ s1 w1] show ?thesis
        by (subst gbif_attempts.simps) simp
    qed
  qed
qed

lemma cache_fetchFromGBIF:
  "cache (fst (snd (fetchFromGBIF e s w la lo c rad))) = cache s"
  by (simp add: fetchFromGBIF_def Let_def cache_gbif_attempts)

lemma cache_ok_fetch:
  "cache_ok (fst (snd (fetchFromGBIF e s w la lo c rad))) = cache_ok s"
  by (rule cache_ok_cong) (rule cache_fetchFromGBIF)

lemma cache_ok_getSpeciesForClass:
  assumes "cache_ok s" and "c \<in> set taxonomicClasses"
  shows "cache_ok (fst (snd (getSpeciesForClass e s w la lo c count)))"
proof -
  define r1 where "r1 = fetchFromGBIF e s w la lo c 50"
  define r2 where "r2 = fetchFromGBIF e (fst (snd r1)) (snd (snd r1)) la lo c 200"
  have ok1: "cache_ok (fst (snd r1))" using assms(1) by (simp add: r1_def cache_ok_fetch)
  then have ok2: "cache_ok (fst (snd r2))" by (simp add: r2_def cache_ok_fetch)
  show ?thesis
    unfolding getSpeciesForClass_def
    using assms ok1 ok2
    by (auto simp: split_beta Let_def r1_def [symmetric] r2_def [symmetric]
        intro!: cache_ok_cacheSpecies split: option.splits)
qed

lemma cache_ok_fetch_classes:
  assumes "cache_ok s" and "set cs \<subseteq> set taxonomicClasses"
  shows "cache_ok (fst (snd (fetch_classes e la lo count cs s w)))"
  using assms
proof (induction cs arbitrary: s w)
  case Nil
  then show ?case by simp
next
  case (Cons c cs)
  from Cons.prems have "cache_ok (fst (snd (getSpeciesForClass e s w la lo c count)))"
    by (intro cache_ok_getSpeciesForClass) auto
  with Cons show ?case by (simp add: split_beta Let_def)
qed

lemma cache_ok_getSpeciesForMeditation:
  assumes "cache_ok s"
  shows "cache_ok (fst (snd (getSpeciesForMeditation e s w la lo animalType count)))"
  using assms
  by (auto simp: getSpeciesForMeditation_def split_beta Let_def intro!: cache_ok_fetch_classes)

lemma map_fst_map_set_present:
  "map_of m k = Some v \<Longrightarrow> map fst (map_set k v' m) = map fst m"
  by (simp add: map_fst_map_set) (metis domI dom_map_of_conv_image_fst)

lemma cache_ok_keys: "map fst (cache s) = map fst (cache s') \<Longrightarrow> cache_ok s = cache_ok s'"
  by (simp add: cache_ok_def classKeys_def)

lemma cache_ok_select_candidate:
  assumes "cache_ok s" and "c \<in> set taxonomicClasses"
  shows "cache_ok (fst (snd (select_candidate e s w la lo c found)))"
proof (cases "getCachedEntry s la lo c")
  case None
  with assms show ?thesis
    by (simp add: select_candidate_def split_beta Let_def cache_ok_cacheSpecies)
next
  case (Some entry)
  then have m: "map_of (cache s) (generateLocationKey la lo c) = Some entry"
    by (simp add: getCachedEntry_def)
  have same: "cache_ok (s\<lparr>cache := map_set (generateLocationKey la lo c) v' (cache s)\<rparr>)" for v'
    using assms(1) cache_ok_keys [of "s\<lparr>cache := map_set (generateLocationKey la lo c) v' (cache s)\<rparr>" s]
    by (simp add: map_fst_map_set_present [OF m])
  from Some assms same show ?thesis
    by (auto simp: select_candidate_def split_beta Let_def cache_ok_cacheSpecies
        split: option.splits)
qed

lemma random_pick_in: "random_pick r xs = Some x \<Longrightarrow> x \<in> set xs"
proof -
  assume a: "random_pick r xs = Some x"
  define i where "i = \<lfloor>r * real (length xs)\<rfloor>"
  from a have "0 \<le> i" "i < int (length xs)" "x = xs ! nat i"
    by (auto simp: random_pick_def Let_def i_def split: if_splits)
  then have "nat i < length xs" by simp
  with \<open>x = xs ! nat i\<close> show ?thesis by simp
qed

lemma matching_class_in: "matching_class req = Some c \<Longrightarrow> c \<in> set taxonomicClasses"
  by (auto simp: matching_class_def find_Some_iff)

lemma choose_class_in: "fst (choose_class e w speciesType) = Some c \<Longrightarrow> c \<in> set taxonomicClasses"
  by (auto simp: choose_class_def math_random_def split: option.splits if_splits
      dest: random_pick_in matching_class_in)

lemma cache_ok_selectSpecies:
  assumes "cache_ok s"
  shows "cache_ok (fst (snd (selectSpecies e s w la lo speciesType)))"
proof (cases "fst (choose_class e w speciesType)")
  case None
  with assms show ?thesis by (simp add: selectSpecies_def split_beta)
next
  case (Some c)
  then have c: "c \<in> set taxonomicClasses" by (rule choose_class_in)
  define r where "r = getSpeciesForClass e s (snd (choose_class e w speciesType)) la lo c 50"
  have ok1: "cache_ok (fst (snd r))"
    unfolding r_def using assms c by (rule cache_ok_getSpeciesForClass)
  then have ok2: "cache_ok (fst (snd (select_candidate e (fst (snd r)) (snd (snd r)) la lo c (fst r))))"
    using c by (rule cache_ok_select_candidate)
  from ok1 ok2 show ?thesis
    by (simp add: selectSpecies_def Some r_def [symmetric] split_beta Let_def split: option.splits)
qed

lemma cache_ok_new: "cache_ok (new_service days)"
  by (simp add: cache_ok_def new_service_def classKeys_def)

text \<open>
  Claim C6. The cache of a new service has each key once and at most \<open>maxCacheSize = 200\<close>
  keys for each class of the registry, and \<^verbatim>\<open>cacheSpecies\<close>, \<^verbatim>\<open>getSpeciesForClass\<close>,
  \<^verbatim>\<open>getSpeciesForMeditation\<close> and \<^verbatim>\<open>selectSpecies\<close> keep it so: the number of keys of a
  class never exceeds 200. When a class holds 200 keys and a new key of that class is
  inserted, the cache loses the first key of the class in insertion order and gains the
  new key at the end: the entries of the class are the old ones without the first, then
  the new one; the entries of every other class are as before; the cache is as long as
  before; one eviction is counted.
\<close>

theorem cache_bound_and_eviction:
  "cache_ok (new_service days) \<and>
   (cache_ok s \<longrightarrow>
      (taxonomicClass \<in> set taxonomicClasses \<longrightarrow>
         cache_ok (cacheSpecies now s latitude longitude taxonomicClass spp) \<and>
         cache_ok (fst (snd (getSpeciesForClass e s w latitude longitude taxonomicClass count)))) \<and>
      cache_ok (fst (snd (getSpeciesForMeditation e s w latitude longitude animalType count))) \<and>
      cache_ok (fst (snd (selectSpecies e s w latitude longitude speciesType)))) \<and>
   (cache_ok s \<and> taxonomicClass \<in> set taxonomicClasses \<and>
    length (classKeys (cache s) (cls_name taxonomicClass)) = maxCacheSize \<and>
    generateLocationKey latitude longitude taxonomicClass \<notin> fst ` set (cache s) \<longrightarrow>
      cache (cacheSpecies now s latitude longitude taxonomicClass spp) =
        map_delete (hd (classKeys (cache s) (cls_name taxonomicClass))) (cache s)
        @ [(generateLocationKey latitude longitude taxonomicClass,
            new_cache_entry now latitude longitude taxonomicClass spp)] \<and>
      class_entries (cache (cacheSpecies now s latitude longitude taxonomicClass spp))
          (cls_name taxonomicClass) =
        tl (class_entries (cache s) (cls_name taxonomicClass))
        @ [(generateLocationKey latitude longitude taxonomicClass,
            new_cache_entry now latitude longitude taxonomicClass spp)] \<and>
      (\<forall>c' \<in> set taxonomicClasses. cls_name c' \<noteq> cls_name taxonomicClass \<longrightarrow>
         class_entries (cache (cacheSpecies now s latitude longitude taxonomicClass spp)) (cls_name c')
           = class_entries (cache s) (cls_name c')) \<and>
      length (cache (cacheSpecies now s latitude longitude taxonomicClass spp)) = length (cache s) \<and>
      evictions (cacheStats (cacheSpecies now s latitude longitude taxonomicClass spp))
        = evictions (cacheStats s) + 1)"
proof (intro conjI impI)
  show "cache_ok (new_service days)" by (rule cache_ok_new)
next
  assume "cache_ok s" and "taxonomicClass \<in> set taxonomicClasses"
  then show "cache_ok (cacheSpecies now s latitude longitude taxonomicClass spp)"
    by (rule cache_ok_cacheSpecies)
next
  assume "cache_ok s" and "taxonomicClass \<in> set taxonomicClasses"
  then show "cache_ok (fst (snd (getSpeciesForClass e s w latitude longitude taxonomicClass count)))"
    by (rule cache_ok_getSpeciesForClass)
next
  assume "cache_ok s"
  then show "cache_ok (fst (snd (getSpeciesForMeditation e s w latitude longitude animalType count)))"
    by (rule cache_ok_getSpeciesForMeditation)
next
  assume "cache_ok s"
  then show "cache_ok (fst (snd (selectSpecies e s w latitude longitude speciesType)))"
    by (rule cache_ok_selectSpecies)
next
  assume a: "cache_ok s \<and> taxonomicClass \<in> set taxonomicClasses \<and>
    length (classKeys (cache s) (cls_name taxonomicClass)) = maxCacheSize \<and>
    generateLocationKey latitude longitude taxonomicClass \<notin> fst ` set (cache s)"
  then have d: "distinct (map fst (cache s))" by (simp add: cache_ok_def)
  note ev = eviction_step [OF d, of taxonomicClass latitude longitude now spp]
  from a ev(1) show "cache (cacheSpecies now s latitude longitude taxonomicClass spp) =
        map_delete (hd (classKeys (cache s) (cls_name taxonomicClass))) (cache s)
        @ [(generateLocationKey latitude longitude taxonomicClass,
            new_cache_entry now latitude longitude taxonomicClass spp)]" by blast
  from a ev(2) show "class_entries (cache (cacheSpecies now s latitude longitude taxonomicClass spp))
          (cls_name taxonomicClass) =
        tl (class_entries (cache s) (cls_name taxonomicClass))
        @ [(generateLocationKey latitude longitude taxonomicClass,
            new_cache_entry now latitude longitude taxonomicClass spp)]" by blast
  from a ev(3) show "\<forall>c' \<in> set taxonomicClasses. cls_name c' \<noteq> cls_name taxonomicClass \<longrightarrow>
         class_entries (cache (cacheSpecies now s latitude longitude taxonomicClass spp)) (cls_name c')
           = class_entries (cache s) (cls_name c')" by blast
  from a ev(4) show "length (cache (cacheSpecies now s latitude longitude taxonomicClass spp)) = length (cache s)"
    by blast
  from a ev(5) show "evictions (cacheStats (cacheSpecies now s latitude longitude taxonomicClass spp))
        = evictions (cacheStats s) + 1" by blast
qed

lemma round_hundredths_of_nat: "round_hundredths (real i / 100) = int i"
  unfolding round_hundredths_def by (simp add: floor_unique)

lemma bird_key_eq: "bird_key i = show_hundredths (int i) @ ''_0_birds''"
proof -
  have "round_hundredths 0 = 0" by (simp add: round_hundredths_def)
  moreover have "show_hundredths 0 = ''0''" by code_simp
  ultimately show ?thesis
    by (simp add: bird_key_def generateLocationKey_def round_hundredths_of_nat birds_def)
qed

lemma distinct_hundredths: "distinct (map (\<lambda>i. show_hundredths (int i)) [0..<201])"
  by code_simp

lemma bird_keys_distinct: "distinct (map bird_key [0..<201])"
proof -
  have "map bird_key [0..<201] = map (\<lambda>x. x @ ''_0_birds'') (map (\<lambda>i. show_hundredths (int i)) [0..<201])"
    by (simp add: bird_key_eq [abs_def] comp_def)
  moreover have "inj (\<lambda>x::string. x @ ''_0_birds'')" by (rule injI) simp
  ultimately show ?thesis
    using distinct_hundredths by (simp only: distinct_map) (auto intro: inj_on_subset)
qed

lemma bird_key_inj: "i \<le> 200 \<Longrightarrow> j \<le> 200 \<Longrightarrow> bird_key i = bird_key j \<Longrightarrow> i = j"
proof -
  assume a: "i \<le> 200" "j \<le> 200" "bird_key i = bird_key j"
  from bird_keys_distinct have "inj_on bird_key (set [0..<201])" by (simp only: distinct_map)
  with a show ?thesis by (auto dest!: inj_onD [where x = i and y = j])
qed

lemma bird_key_class: "endsWith (bird_key i) (''_'' @ cls_name birds)"
  unfolding bird_key_def by (rule key_belongs)

lemma fill_cache_Suc:
  "fill_cache (Suc n) = cacheSpecies 0 (fill_cache n) (real n / 100) 0 birds [house_sparrow]"
  by (simp add: fill_cache_def)

lemma fill_cache_keys:
  "n \<le> 200 \<Longrightarrow> map fst (cache (fill_cache n)) = map bird_key [0..<n] \<and>
     evictions (cacheStats (fill_cache n)) = 0"
proof (induction n)
  case 0
  show ?case by (simp add: fill_cache_def new_service_def)
next
  case (Suc n)
  then have ih: "map fst (cache (fill_cache n)) = map bird_key [0..<n]"
    and ev: "evictions (cacheStats (fill_cache n)) = 0" and n: "n < 200" by simp_all
  have ck: "classKeys (cache (fill_cache n)) (cls_name birds) = map bird_key [0..<n]"
    unfolding classKeys_def ih using bird_key_class by (simp add: filter_id_conv)
  have new: "bird_key n \<notin> fst ` set (cache (fill_cache n))"
  proof
    assume "bird_key n \<in> fst ` set (cache (fill_cache n))"
    then have "bird_key n \<in> set (map fst (cache (fill_cache n)))" by simp
    then obtain i where "i < n" "bird_key n = bird_key i" unfolding ih by auto
    with n bird_key_inj [of n i] show False by simp
  qed
  have "cache (fill_cache (Suc n)) =
      map_set (bird_key n) (new_cache_entry 0 (real n / 100) 0 birds [house_sparrow]) (cache (fill_cache n))"
    using n by (simp add: fill_cache_Suc cache_cacheSpecies ck maxCacheSize_def bird_key_def)
  then have "map fst (cache (fill_cache (Suc n))) = map bird_key [0..<Suc n]"
    using new by (simp add: map_fst_map_set ih)
  moreover have "evictions (cacheStats (fill_cache (Suc n))) = 0"
    using n ev by (simp add: fill_cache_Suc cacheSpecies_def Let_def ck maxCacheSize_def)
  ultimately show ?case by simp
qed

text \<open>After 200 insertions for the birds, at latitudes \<open>0.00\<close> to \<open>1.99\<close>, the insertion of
  latitude \<open>2.00\<close> evicts the key of latitude \<open>0.00\<close>, which was inserted first.\<close>

theorem cache_eviction_witness:
  "length (cache (fill_cache 200)) = 200 \<and>
   map fst (cache (cacheSpecies 0 (fill_cache 200) 2 0 birds [house_sparrow]))
     = map bird_key [1..<201] \<and>
   evictions (cacheStats (cacheSpecies 0 (fill_cache 200) 2 0 birds [house_sparrow])) = 1"
proof -
  have keys: "map fst (cache (fill_cache 200)) = map bird_key [0..<200]"
    and ev: "evictions (cacheStats (fill_cache 200)) = 0"
    using fill_cache_keys [of 200] by simp_all
  have ck: "classKeys (cache (fill_cache 200)) (cls_name birds) = map bird_key [0..<200]"
    unfolding classKeys_def keys using bird_key_class by (simp add: filter_id_conv)
  have d: "distinct (map fst (cache (fill_cache 200)))"
  proof -
    have "distinct (map bird_key (take 200 [0..<201]))"
      using bird_keys_distinct by (simp only: take_map [symmetric] distinct_take)
    then show ?thesis by (simp add: keys)
  qed
  have others: "classKeys (cache (fill_cache 200)) (cls_name c) = []"
    if "c \<in> set taxonomicClasses" "cls_name c \<noteq> cls_name birds" for c
  proof -
    have b: "birds \<in> set taxonomicClasses" by (simp add: birds_def taxonomicClasses_def)
    have "\<not> endsWith (bird_key i) (''_'' @ cls_name c)" for i
      using one_class_per_key [OF b that(1) bird_key_class [of i]] that(2) by auto
    then show ?thesis by (simp add: classKeys_def keys)
  qed
  have ok: "cache_ok (fill_cache 200)"
    unfolding cache_ok_def
  proof (intro conjI ballI)
    show "distinct (map fst (cache (fill_cache 200)))" by (rule d)
  next
    fix c assume c: "c \<in> set taxonomicClasses"
    show "length (classKeys (cache (fill_cache 200)) (cls_name c)) \<le> maxCacheSize"
    proof (cases "cls_name c = cls_name birds")
      case True
      then show ?thesis by (simp add: ck maxCacheSize_def)
    next
      case False
      with others [OF c] show ?thesis by simp
    qed
  qed
  have b: "birds \<in> set taxonomicClasses" by (simp add: birds_def taxonomicClasses_def)
  have full: "length (classKeys (cache (fill_cache 200)) (cls_name birds)) = maxCacheSize"
    by (simp add: ck maxCacheSize_def)
  have k200: "generateLocationKey 2 0 birds = bird_key 200" by (simp add: bird_key_def)
  have new: "generateLocationKey 2 0 birds \<notin> fst ` set (cache (fill_cache 200))"
  proof
    assume "generateLocationKey 2 0 birds \<in> fst ` set (cache (fill_cache 200))"
    then have "bird_key 200 \<in> set (map fst (cache (fill_cache 200)))" by (simp add: k200)
    then obtain i where "i < 200" "bird_key 200 = bird_key i" unfolding keys by auto
    with bird_key_inj [of 200 i] show False by simp
  qed
  from ok b full new
    cache_bound_and_eviction [of None "fill_cache 200" birds 0 2 0 "[house_sparrow]"]
  have c: "cache (cacheSpecies 0 (fill_cache 200) 2 0 birds [house_sparrow]) =
        map_delete (hd (classKeys (cache (fill_cache 200)) (cls_name birds))) (cache (fill_cache 200))
        @ [(generateLocationKey 2 0 birds, new_cache_entry 0 2 0 birds [house_sparrow])]"
    and e: "evictions (cacheStats (cacheSpecies 0 (fill_cache 200) 2 0 birds [house_sparrow]))
        = evictions (cacheStats (fill_cache 200)) + 1"
    by blast+
  have hd: "hd (classKeys (cache (fill_cache 200)) (cls_name birds)) = bird_key 0"
    by (simp add: ck upt_conv_Cons)
  have "map fst (map_delete (bird_key 0) (cache (fill_cache 200)))
      = filter (\<lambda>k. k \<noteq> bird_key 0) (map bird_key [0..<200])"
    by (simp add: map_delete_def filter_map comp_def keys [symmetric])
  also have "\<dots> = map bird_key [1..<200]"
  proof -
    have "[0..<200] = 0 # [1..<200]" by (simp add: upt_conv_Cons)
    moreover have "\<forall>i \<in> set [1..<200]. bird_key i \<noteq> bird_key 0"
    proof
      fix i assume "i \<in> set [1..<200]"
      then have "i \<le> 200" "i \<noteq> 0" by simp_all
      with bird_key_inj [of i 0] show "bird_key i \<noteq> bird_key 0" by auto
    qed
    ultimately show ?thesis by (simp add: filter_id_conv)
  qed
  finally have "map fst (cache (cacheSpecies 0 (fill_cache 200) 2 0 birds [house_sparrow]))
      = map bird_key [1..<200] @ [bird_key 200]"
    by (simp add: c hd k200)
  also have "\<dots> = map bird_key [1..<201]"
  proof -
    have "[1..<201] = [1..<200] @ [200::nat]"
      using upt_Suc_append [of 1 200] by simp
    then show ?thesis by simp
  qed
  finally show ?thesis
    using keys e ev length_map [of fst "cache (fill_cache 200)"] by simp
qed

subsection \<open>Selection policy\<close>

lemma find_index_stamp:
  "find_index p xs = Some i \<Longrightarrow>
     i < length xs \<and> p (xs ! i) \<and> (\<forall>j<i. \<not> p (xs ! j))"
proof (induction xs arbitrary: i)
  case Nil
  then show ?case by simp
next
  case (Cons x xs)
  show ?case
  proof (cases "p x")
    case True
    with Cons.prems show ?thesis by simp
  next
    case False
    with Cons.prems obtain k where k: "find_index p xs = Some k" "i = Suc k" by auto
    from Cons.IH [OF k(1)] False k(2) show ?thesis
      by (auto simp: less_Suc_eq_0_disj)
  qed
qed

lemma stamp_used_map:
  assumes "names_differ cached" and "c \<in> set cached"
  shows "stamp_used now c cached =
           Some (map (\<lambda>x. if same_name c x then x\<lparr>lastUsed := now\<rparr> else x) cached)"
  using assms
proof (induction cached)
  case Nil
  then show ?case by simp
next
  case (Cons x xs)
  show ?case
  proof (cases "same_name c x")
    case True
    have "\<not> same_name c y" if "y \<in> set xs" for y
      using Cons.prems(1) True that by (auto simp: names_differ_def same_name_def image_iff)
    then have "map (\<lambda>x. if same_name c x then x\<lparr>lastUsed := now\<rparr> else x) xs = xs"
      by (simp add: map_idI)
    with True show ?thesis by (simp add: stamp_used_def same_name_def)
  next
    case False
    with Cons.prems have c: "c \<in> set xs" and d: "names_differ xs"
      by (auto simp: same_name_def names_differ_def)
    from Cons.IH [OF d c] False show ?thesis
      by (auto simp: stamp_used_def same_name_def split: option.splits)
  qed
qed

lemma map_of_map_set: "map_of (map_set k v m) = (map_of m)(k \<mapsto> v)"
  by (induction m) (auto simp: fun_eq_iff)

lemma eligible_stamped:
  assumes "0 < now" and "0 < T"
  shows "filter (eligible now T) (map (\<lambda>x. if same_name c x then x\<lparr>lastUsed := now\<rparr> else x) xs)
           = filter (\<lambda>x. \<not> same_name c x) (filter (eligible now T) xs)"
  using assms by (induction xs) (auto simp: eligible_def)

lemma names_stamped:
  "map name (map (\<lambda>x. if same_name c x then x\<lparr>lastUsed := now\<rparr> else x) xs) = map name xs"
  by (induction xs) auto

lemma random_pick_index:
  assumes "0 \<le> r" and "r < 1" and "xs \<noteq> []"
  shows "\<exists>k < length xs. random_pick r xs = Some (xs ! k) \<and>
           real k / real (length xs) \<le> r \<and> r < (real k + 1) / real (length xs)"
proof -
  define n where "n = length xs"
  define i where "i = \<lfloor>r * real n\<rfloor>"
  from assms(3) have n: "0 < n" by (simp add: n_def)
  from assms(1) have i0: "0 \<le> i" by (simp add: i_def)
  have "r * real n < real n" using assms(2) n by simp
  then have "i < int n" unfolding i_def by (simp add: floor_less_iff)
  with i0 have k: "nat i < n" by simp
  have "real_of_int i \<le> r * real n" "r * real n < real_of_int i + 1"
    unfolding i_def by linarith+
  with i0 have "real (nat i) \<le> r * real n" "r * real n < real (nat i) + 1" by simp_all
  with n have "real (nat i) / real n \<le> r" "r < (real (nat i) + 1) / real n"
    by (simp_all add: field_simps)
  moreover have "random_pick r xs = Some (xs ! nat i)"
    using i0 \<open>i < int n\<close> by (simp add: random_pick_def Let_def i_def n_def)
  ultimately show ?thesis using k unfolding n_def by blast
qed

lemma names_differ_stamped:
  "names_differ (map (\<lambda>x. if same_name c x then x\<lparr>lastUsed := now\<rparr> else x) xs) = names_differ xs"
proof -
  have "map (\<lambda>x. toLowerCase (name x)) (map (\<lambda>x. if same_name c x then x\<lparr>lastUsed := now\<rparr> else x) xs)
      = map (\<lambda>x. toLowerCase (name x)) xs"
    by (induction xs) auto
  then show ?thesis unfolding names_differ_def by (simp only:)
qed

lemma names_differ_filter: "names_differ xs \<Longrightarrow> names_differ (filter p xs)"
  by (simp add: names_differ_def distinct_map_filter)

lemma length_without_name:
  assumes "names_differ xs" and "c \<in> set xs"
  shows "Suc (length (filter (\<lambda>x. \<not> same_name c x) xs)) = length xs"
  using assms
proof (induction xs)
  case Nil
  then show ?case by simp
next
  case (Cons x xs)
  show ?case
  proof (cases "same_name c x")
    case True
    have "\<not> same_name c y" if "y \<in> set xs" for y
      using Cons.prems(1) True that by (auto simp: names_differ_def same_name_def image_iff)
    then have "filter (\<lambda>x. \<not> same_name c x) xs = xs" by (simp add: filter_id_conv)
    with True show ?thesis by simp
  next
    case False
    with Cons.prems have "c \<in> set xs" "names_differ xs"
      by (auto simp: same_name_def names_differ_def)
    with Cons.IH False show ?thesis by simp
  qed
qed

lemma hd_insort_key:
  "ys \<noteq> [] \<Longrightarrow> hd (insort_key f x ys) = (if f x \<le> f (hd ys) then x else hd ys)"
  by (cases ys) simp_all

lemma sort_key_not_Nil: "sort_key f xs = [] \<longleftrightarrow> xs = []"
  by (metis length_0_conv length_sort)

text \<open>The head of a stable sort: the first element whose key is the least.\<close>

lemma hd_sort_key_first_least:
  fixes f :: "'a \<Rightarrow> int"
  assumes "xs \<noteq> []"
  shows "\<exists>i < length xs. hd (sort_key f xs) = xs ! i \<and> (\<forall>x \<in> set xs. f (xs ! i) \<le> f x) \<and>
           (\<forall>j < i. f (xs ! i) < f (xs ! j))"
  using assms
proof (induction xs)
  case Nil
  then show ?case by simp
next
  case (Cons x xs)
  show ?case
  proof (cases "xs = []")
    case True
    then show ?thesis by simp
  next
    case False
    from Cons.IH [OF False] obtain i where
      i: "i < length xs" "hd (sort_key f xs) = xs ! i" "\<forall>y \<in> set xs. f (xs ! i) \<le> f y"
         "\<forall>j < i. f (xs ! i) < f (xs ! j)"
      by blast
    from False have ne: "sort_key f xs \<noteq> []" by (simp add: sort_key_not_Nil)
    have hd: "hd (sort_key f (x # xs)) = (if f x \<le> f (xs ! i) then x else xs ! i)"
      using hd_insort_key [OF ne, of f x] i(2) by simp
    show ?thesis
    proof (cases "f x \<le> f (xs ! i)")
      case True
      with hd i(3) have "hd (sort_key f (x # xs)) = (x # xs) ! 0"
        "\<forall>y \<in> set (x # xs). f ((x # xs) ! 0) \<le> f y"
        by auto
      then show ?thesis by (intro exI [of _ 0]) simp
    next
      case nle: False
      with hd have h: "hd (sort_key f (x # xs)) = (x # xs) ! Suc i" by simp
      have m: "\<forall>y \<in> set (x # xs). f ((x # xs) ! Suc i) \<le> f y" using nle i(3) by auto
      have l: "\<forall>j < Suc i. f ((x # xs) ! Suc i) < f ((x # xs) ! j)"
      proof (intro allI impI)
        fix j assume "j < Suc i"
        then show "f ((x # xs) ! Suc i) < f ((x # xs) ! j)"
          using nle i(4) by (cases j) auto
      qed
      from i(1) h m l show ?thesis by (intro exI [of _ "Suc i"]) simp
    qed
  qed
qed

lemma sort_key_equal_keys:
  fixes f :: "'a \<Rightarrow> int"
  assumes "\<forall>x \<in> set xs. f x = k"
  shows "sort_key f xs = xs"
  using assms
proof (induction xs)
  case Nil
  then show ?case by simp
next
  case (Cons x xs)
  then have "sort_key f xs = xs" by simp
  moreover have "insort_key f x xs = x # xs"
    using Cons.prems by (cases xs) simp_all
  ultimately show ?case by simp
qed


lemma same_name_stamped [simp]: "same_name c (x\<lparr>lastUsed := t\<rparr>) = same_name c x"
  by (simp add: same_name_def)

lemma select_step:
  assumes hit: "getCachedEntry s la lo cls = Some entry"
    and nd: "names_differ (entry_species entry)"
    and un: "filter (eligible (clock w) (twoDaysMs s)) (entry_species entry) \<noteq> []"
    and r: "0 \<le> random e (rand_count w)" "random e (rand_count w) < 1"
    and pos: "0 < clock w" "0 < twoDaysMs s"
  obtains c s' w' entry' where
    "select_candidate e s w la lo cls found = (Some c, s', w')"
    "c \<in> set (filter (eligible (clock w) (twoDaysMs s)) (entry_species entry))"
    "getCachedEntry s' la lo cls = Some entry'"
    "entry_species entry' =
       map (\<lambda>x. if same_name c x then x\<lparr>lastUsed := clock w\<rparr> else x) (entry_species entry)"
    "filter (eligible (clock w') (twoDaysMs s')) (entry_species entry')
       = filter (\<lambda>x. \<not> same_name c x) (filter (eligible (clock w) (twoDaysMs s)) (entry_species entry))"
    "clock w' = clock w" "twoDaysMs s' = twoDaysMs s"
proof -
  define cached where "cached = entry_species entry"
  define U where "U = filter (eligible (clock w) (twoDaysMs s)) cached"
  from un have ne: "cached \<noteq> []" by (auto simp: cached_def)
  from random_pick_index [OF r, of U] un obtain k where
    k: "k < length U" "random_pick (random e (rand_count w)) U = Some (U ! k)"
    by (auto simp: U_def cached_def)
  define c where "c = U ! k"
  from k have cU: "c \<in> set U" by (simp add: c_def)
  then have cc: "c \<in> set cached" by (simp add: U_def)
  define stamped where "stamped = map (\<lambda>x. if same_name c x then x\<lparr>lastUsed := clock w\<rparr> else x) cached"
  have st: "stamp_used (clock w) c cached = Some stamped"
    unfolding stamped_def using nd cc by (intro stamp_used_map) (simp_all add: cached_def)
  define entry' where "entry' = entry\<lparr>entry_species := stamped\<rparr>"
  define s' where "s' = s\<lparr>cache := map_set (generateLocationKey la lo cls) entry' (cache s)\<rparr>"
  define w' where "w' = w\<lparr>rand_count := rand_count w + 1\<rparr>"
  have sel: "select_candidate e s w la lo cls found = (Some c, s', w')"
    using hit ne un k(2) st
    by (simp add: select_candidate_def Let_def math_random_def cached_def [symmetric]
        U_def [symmetric] c_def [symmetric] s'_def w'_def entry'_def)
  have hit': "getCachedEntry s' la lo cls = Some entry'"
    by (simp add: getCachedEntry_def s'_def map_of_map_set)
  have es: "entry_species entry' =
       map (\<lambda>x. if same_name c x then x\<lparr>lastUsed := clock w\<rparr> else x) (entry_species entry)"
    by (simp add: entry'_def stamped_def cached_def)
  have T: "twoDaysMs s' = twoDaysMs s" by (simp add: twoDaysMs_def s'_def)
  have clk: "clock w' = clock w" by (simp add: w'_def)
  have U': "filter (eligible (clock w') (twoDaysMs s')) (entry_species entry')
       = filter (\<lambda>x. \<not> same_name c x) (filter (eligible (clock w) (twoDaysMs s)) (entry_species entry))"
    unfolding T clk using eligible_stamped [OF pos, of c cached]
    by (simp add: entry'_def stamped_def cached_def)
  from that [OF sel _ hit' es U' clk T] cU show thesis
    by (simp add: U_def cached_def)
qed

lemma select_lru:
  assumes hit: "getCachedEntry s la lo cls = Some entry"
    and ne: "entry_species entry \<noteq> []"
    and un: "filter (eligible (clock w) (twoDaysMs s)) (entry_species entry) = []"
  shows "fst (select_candidate e s w la lo cls found) = Some (hd (sort_key lastUsed (entry_species entry)))"
  using hit ne un by (simp add: select_candidate_def Let_def split: option.splits)

lemma select_uniform:
  assumes hit: "getCachedEntry s la lo cls = Some entry"
    and un: "filter (eligible (clock w) (twoDaysMs s)) (entry_species entry) \<noteq> []"
    and r: "0 \<le> random e (rand_count w)" "random e (rand_count w) < 1"
  shows "\<exists>k < length (filter (eligible (clock w) (twoDaysMs s)) (entry_species entry)).
           fst (select_candidate e s w la lo cls found)
             = Some (filter (eligible (clock w) (twoDaysMs s)) (entry_species entry) ! k) \<and>
           real k / real (length (filter (eligible (clock w) (twoDaysMs s)) (entry_species entry)))
             \<le> random e (rand_count w) \<and>
           random e (rand_count w)
             < (real k + 1) / real (length (filter (eligible (clock w) (twoDaysMs s)) (entry_species entry)))"
proof -
  define U where "U = filter (eligible (clock w) (twoDaysMs s)) (entry_species entry)"
  from un have ne: "entry_species entry \<noteq> []" by auto
  from random_pick_index [OF r, of U] un obtain k where
    k: "k < length U" "random_pick (random e (rand_count w)) U = Some (U ! k)"
    "real k / real (length U) \<le> random e (rand_count w)"
    "random e (rand_count w) < (real k + 1) / real (length U)"
    by (auto simp: U_def)
  have "fst (select_candidate e s w la lo cls found) = Some (U ! k)"
    using hit ne un k(2)
    by (simp add: select_candidate_def Let_def math_random_def U_def [symmetric] split_beta
        split: option.splits)
  with k show ?thesis unfolding U_def by blast
qed


text \<open>\<^verbatim>\<open>selectSpecies\<close> on a cache entry of the requested class: it returns the chosen
  candidate in the format of the session manager.\<close>

lemma selectSpecies_on_hit:
  assumes t: "speciesType \<noteq> []" and m: "matching_class (toLowerCase speciesType) = Some cls"
    and hit: "getCachedEntry s la lo cls = Some entry" and ne: "entry_species entry \<noteq> []"
  shows "selectSpecies e s w la lo (Some speciesType) =
           (case select_candidate e s w la lo cls (slice0 50 (entry_species entry)) of
              (None, s', w') \<Rightarrow> (getFallbackSpecies, s', w')
            | (Some c, s', w') \<Rightarrow> (format_selection cls c, s', w'))"
proof -
  have c: "choose_class e w (Some speciesType) = (Some cls, w)"
    using t m by (simp add: choose_class_def truthy_def or_empty_def)
  have g: "getSpeciesForClass e s w la lo cls 50 = (slice0 50 (entry_species entry), s, w)"
    using hit ne by (simp add: getSpeciesForClass_def)
  have n: "slice0 50 (entry_species entry) \<noteq> []"
    using ne by (intro slice0_nonempty) simp_all
  show ?thesis
    by (simp add: selectSpecies_def c g n split: prod.splits option.splits)
qed

lemma stamped_thrice:
  assumes "same_name c1 x \<or> same_name c2 x \<or> same_name c3 x"
  shows "(\<lambda>x. if same_name c3 x then x\<lparr>lastUsed := t\<rparr> else x)
           ((\<lambda>x. if same_name c2 x then x\<lparr>lastUsed := t\<rparr> else x)
              ((\<lambda>x. if same_name c1 x then x\<lparr>lastUsed := t\<rparr> else x) x)) = x\<lparr>lastUsed := t\<rparr>"
  using assms by auto

text \<open>The policy in terms of the filter of the code.\<close>

lemma selection_policy_eligible:
  assumes hit: "getCachedEntry s latitude longitude cls = Some entry"
    and rnd: "\<forall>n. 0 \<le> random e n \<and> random e n < 1"
  shows
   "(filter (eligible (clock w) (twoDaysMs s)) (entry_species entry) \<noteq> [] \<longrightarrow>
       (\<exists>k < length (filter (eligible (clock w) (twoDaysMs s)) (entry_species entry)).
           fst (select_candidate e s w latitude longitude cls found)
             = Some (filter (eligible (clock w) (twoDaysMs s)) (entry_species entry) ! k) \<and>
           real k / real (length (filter (eligible (clock w) (twoDaysMs s)) (entry_species entry)))
             \<le> random e (rand_count w) \<and>
           random e (rand_count w)
             < (real k + 1) / real (length (filter (eligible (clock w) (twoDaysMs s)) (entry_species entry))))) \<and>
    (entry_species entry \<noteq> [] \<and>
     filter (eligible (clock w) (twoDaysMs s)) (entry_species entry) = [] \<longrightarrow>
       (\<exists>i < length (entry_species entry).
           fst (select_candidate e s w latitude longitude cls found) = Some (entry_species entry ! i) \<and>
           (\<forall>x \<in> set (entry_species entry). lastUsed (entry_species entry ! i) \<le> lastUsed x) \<and>
           (\<forall>j < i. lastUsed (entry_species entry ! i) < lastUsed (entry_species entry ! j)))) \<and>
    (length (entry_species entry) = 3 \<and>
     (\<forall>x \<in> set (entry_species entry). eligible (clock w) (twoDaysMs s) x) \<and>
     names_differ (entry_species entry) \<and> noRepeatDays s = 2 \<and> 0 < clock w \<longrightarrow>
       (\<exists>c1 s1 w1 c2 s2 w2 c3 s3 w3.
           select_candidate e s w latitude longitude cls found = (Some c1, s1, w1) \<and>
           select_candidate e s1 w1 latitude longitude cls found = (Some c2, s2, w2) \<and>
           select_candidate e s2 w2 latitude longitude cls found = (Some c3, s3, w3) \<and>
           clock w3 = clock w \<and>
           set [c1, c2, c3] \<subseteq> set (entry_species entry) \<and>
           distinct [name c1, name c2, name c3] \<and>
           fst (select_candidate e s3 w3 latitude longitude cls found)
             = Some ((hd (entry_species entry))\<lparr>lastUsed := clock w\<rparr>))) \<and>
    (speciesType \<noteq> [] \<and> matching_class (toLowerCase speciesType) = Some cls \<and>
     entry_species entry \<noteq> [] \<longrightarrow>
       selectSpecies e s w latitude longitude (Some speciesType) =
         (case select_candidate e s w latitude longitude cls (slice0 50 (entry_species entry)) of
            (None, s', w') \<Rightarrow> (getFallbackSpecies, s', w')
          | (Some c, s', w') \<Rightarrow> (format_selection cls c, s', w')))"
proof (intro conjI impI)
  assume "filter (eligible (clock w) (twoDaysMs s)) (entry_species entry) \<noteq> []"
  with hit rnd show "\<exists>k < length (filter (eligible (clock w) (twoDaysMs s)) (entry_species entry)).
           fst (select_candidate e s w latitude longitude cls found)
             = Some (filter (eligible (clock w) (twoDaysMs s)) (entry_species entry) ! k) \<and>
           real k / real (length (filter (eligible (clock w) (twoDaysMs s)) (entry_species entry)))
             \<le> random e (rand_count w) \<and>
           random e (rand_count w)
             < (real k + 1) / real (length (filter (eligible (clock w) (twoDaysMs s)) (entry_species entry)))"
    by (intro select_uniform) simp_all
next
  assume a: "entry_species entry \<noteq> [] \<and>
     filter (eligible (clock w) (twoDaysMs s)) (entry_species entry) = []"
  then have ne: "entry_species entry \<noteq> []"
    and un: "filter (eligible (clock w) (twoDaysMs s)) (entry_species entry) = []"
    by simp_all
  from hd_sort_key_first_least [OF ne, of lastUsed] obtain i where
    i: "i < length (entry_species entry)"
       "hd (sort_key lastUsed (entry_species entry)) = entry_species entry ! i"
       "\<forall>x \<in> set (entry_species entry). lastUsed (entry_species entry ! i) \<le> lastUsed x"
       "\<forall>j < i. lastUsed (entry_species entry ! i) < lastUsed (entry_species entry ! j)"
    by blast
  from select_lru [OF hit ne un, of e found] i(2)
  have "fst (select_candidate e s w latitude longitude cls found) = Some (entry_species entry ! i)"
    by simp
  with i(1,3,4) show "\<exists>i < length (entry_species entry).
           fst (select_candidate e s w latitude longitude cls found) = Some (entry_species entry ! i) \<and>
           (\<forall>x \<in> set (entry_species entry). lastUsed (entry_species entry ! i) \<le> lastUsed x) \<and>
           (\<forall>j < i. lastUsed (entry_species entry ! i) < lastUsed (entry_species entry ! j))"
    by blast
next
  assume a: "length (entry_species entry) = 3 \<and>
     (\<forall>x \<in> set (entry_species entry). eligible (clock w) (twoDaysMs s) x) \<and>
     names_differ (entry_species entry) \<and> noRepeatDays s = 2 \<and> 0 < clock w"
  define E0 where "E0 = entry_species entry"
  define U0 where "U0 = filter (eligible (clock w) (twoDaysMs s)) (entry_species entry)"
  from a have U0: "U0 = E0" by (simp add: U0_def E0_def)
  from a have T: "0 < twoDaysMs s" by (simp add: twoDaysMs_def)
  from a have now: "0 < clock w" by simp
  from a have nd0: "names_differ U0" and l0: "length U0 = 3" by (simp_all add: U0 E0_def)
  from rnd have r: "0 \<le> random e n" "random e n < 1" for n by simp_all
  from a have nde: "names_differ (entry_species entry)" by simp
  have un0: "filter (eligible (clock w) (twoDaysMs s)) (entry_species entry) \<noteq> []"
    using l0 by (auto simp: U0_def)
  obtain c1 s1 w1 entry1 where
    sel1: "select_candidate e s w latitude longitude cls found = (Some c1, s1, w1)"
    and c1': "c1 \<in> set (filter (eligible (clock w) (twoDaysMs s)) (entry_species entry))"
    and hit1: "getCachedEntry s1 latitude longitude cls = Some entry1"
    and es1: "entry_species entry1 =
       map (\<lambda>x. if same_name c1 x then x\<lparr>lastUsed := clock w\<rparr> else x) (entry_species entry)"
    and U1': "filter (eligible (clock w1) (twoDaysMs s1)) (entry_species entry1)
               = filter (\<lambda>x. \<not> same_name c1 x)
                   (filter (eligible (clock w) (twoDaysMs s)) (entry_species entry))"
    and clk1: "clock w1 = clock w" and T1: "twoDaysMs s1 = twoDaysMs s"
    by (rule select_step [OF hit nde un0 r [of "rand_count w"] now T, of found])
  define U1 where "U1 = filter (eligible (clock w1) (twoDaysMs s1)) (entry_species entry1)"
  have U1: "U1 = filter (\<lambda>x. \<not> same_name c1 x) U0" by (simp add: U1_def U1' U0_def)
  from c1' have c1: "c1 \<in> set U0" by (simp add: U0_def)
  from length_without_name [OF nd0 c1] l0 have l1: "length U1 = 2" by (simp add: U1)
  have ndU1: "names_differ U1" unfolding U1 using nd0 by (rule names_differ_filter)
  have nd1: "names_differ (entry_species entry1)"
    unfolding es1 using nde by (simp add: names_differ_stamped)
  have un1: "filter (eligible (clock w1) (twoDaysMs s1)) (entry_species entry1) \<noteq> []"
    using l1 by (auto simp: U1_def)
  have now1: "0 < clock w1" and Tp1: "0 < twoDaysMs s1" using now T clk1 T1 by simp_all
  obtain c2 s2 w2 entry2 where
    sel2: "select_candidate e s1 w1 latitude longitude cls found = (Some c2, s2, w2)"
    and c2': "c2 \<in> set (filter (eligible (clock w1) (twoDaysMs s1)) (entry_species entry1))"
    and hit2: "getCachedEntry s2 latitude longitude cls = Some entry2"
    and es2: "entry_species entry2 =
       map (\<lambda>x. if same_name c2 x then x\<lparr>lastUsed := clock w1\<rparr> else x) (entry_species entry1)"
    and U2': "filter (eligible (clock w2) (twoDaysMs s2)) (entry_species entry2)
               = filter (\<lambda>x. \<not> same_name c2 x)
                   (filter (eligible (clock w1) (twoDaysMs s1)) (entry_species entry1))"
    and clk2: "clock w2 = clock w1" and T2: "twoDaysMs s2 = twoDaysMs s1"
    by (rule select_step [OF hit1 nd1 un1 r [of "rand_count w1"] now1 Tp1, of found])
  define U2 where "U2 = filter (eligible (clock w2) (twoDaysMs s2)) (entry_species entry2)"
  have U2: "U2 = filter (\<lambda>x. \<not> same_name c2 x) U1" by (simp add: U2_def U2' U1_def)
  from c2' have c2: "c2 \<in> set U1" by (simp add: U1_def)
  from length_without_name [OF ndU1 c2] l1 have l2: "length U2 = 1" by (simp add: U2)
  have ndU2: "names_differ U2" unfolding U2 using ndU1 by (rule names_differ_filter)
  have nd2: "names_differ (entry_species entry2)"
    unfolding es2 using nd1 by (simp add: names_differ_stamped)
  have un2: "filter (eligible (clock w2) (twoDaysMs s2)) (entry_species entry2) \<noteq> []"
    using l2 by (auto simp: U2_def)
  have now2: "0 < clock w2" and Tp2: "0 < twoDaysMs s2" using now1 Tp1 clk2 T2 by simp_all
  obtain c3 s3 w3 entry3 where
    sel3: "select_candidate e s2 w2 latitude longitude cls found = (Some c3, s3, w3)"
    and c3': "c3 \<in> set (filter (eligible (clock w2) (twoDaysMs s2)) (entry_species entry2))"
    and hit3: "getCachedEntry s3 latitude longitude cls = Some entry3"
    and es3: "entry_species entry3 =
       map (\<lambda>x. if same_name c3 x then x\<lparr>lastUsed := clock w2\<rparr> else x) (entry_species entry2)"
    and U3': "filter (eligible (clock w3) (twoDaysMs s3)) (entry_species entry3)
               = filter (\<lambda>x. \<not> same_name c3 x)
                   (filter (eligible (clock w2) (twoDaysMs s2)) (entry_species entry2))"
    and clk3: "clock w3 = clock w2" and T3: "twoDaysMs s3 = twoDaysMs s2"
    by (rule select_step [OF hit2 nd2 un2 r [of "rand_count w2"] now2 Tp2, of found])
  from c3' have c3: "c3 \<in> set U2" by (simp add: U2_def)
  from length_without_name [OF ndU2 c3] l2
  have none: "filter (\<lambda>x. \<not> same_name c3 x) U2 = []" by simp
  then have un3: "filter (eligible (clock w3) (twoDaysMs s3)) (entry_species entry3) = []"
    by (simp add: U3' U2_def)
  from a have ne0: "E0 \<noteq> []" by (auto simp: E0_def)
  have cover: "same_name c1 x \<or> same_name c2 x \<or> same_name c3 x" if "x \<in> set E0" for x
    using none that unfolding U2 U1 U0 by (auto simp: filter_empty_conv)
  have "entry_species entry3 =
      map (\<lambda>x. (\<lambda>x. if same_name c3 x then x\<lparr>lastUsed := clock w\<rparr> else x)
           ((\<lambda>x. if same_name c2 x then x\<lparr>lastUsed := clock w\<rparr> else x)
              ((\<lambda>x. if same_name c1 x then x\<lparr>lastUsed := clock w\<rparr> else x) x))) E0"
    unfolding es3 es2 es1 clk2 clk1 E0_def by (simp add: comp_def)
  also have "\<dots> = map (\<lambda>x. x\<lparr>lastUsed := clock w\<rparr>) E0"
    by (rule map_cong [OF refl]) (rule stamped_thrice, rule cover)
  finally have E3: "entry_species entry3 = map (\<lambda>x. x\<lparr>lastUsed := clock w\<rparr>) E0" .
  with ne0 have ne3: "entry_species entry3 \<noteq> []" by simp
  have "sort_key lastUsed (entry_species entry3) = entry_species entry3"
    by (rule sort_key_equal_keys [of _ _ "clock w"]) (simp add: E3)
  with select_lru [OF hit3 ne3 un3, of e found]
  have "fst (select_candidate e s3 w3 latitude longitude cls found) = Some (hd (entry_species entry3))"
    by simp
  also have "hd (entry_species entry3) = (hd E0)\<lparr>lastUsed := clock w\<rparr>"
    unfolding E3 using ne0 by (simp add: hd_map)
  finally have fourth: "fst (select_candidate e s3 w3 latitude longitude cls found)
      = Some ((hd (entry_species entry))\<lparr>lastUsed := clock w\<rparr>)"
    by (simp add: E0_def)
  from c2 have n12: "\<not> same_name c1 c2" by (simp add: U1)
  from c3 have n23: "\<not> same_name c2 c3" and n13: "\<not> same_name c1 c3"
    by (simp_all add: U2 U1)
  from n12 n23 n13 have d: "distinct [name c1, name c2, name c3]"
    by (auto simp: same_name_def)
  have clk: "clock w3 = clock w" by (simp add: clk3 clk2 clk1)
  from c1 c2 c3 have mem: "set [c1, c2, c3] \<subseteq> set (entry_species entry)"
    by (simp add: U2 U1 U0 E0_def)
  show "\<exists>c1 s1 w1 c2 s2 w2 c3 s3 w3.
           select_candidate e s w latitude longitude cls found = (Some c1, s1, w1) \<and>
           select_candidate e s1 w1 latitude longitude cls found = (Some c2, s2, w2) \<and>
           select_candidate e s2 w2 latitude longitude cls found = (Some c3, s3, w3) \<and>
           clock w3 = clock w \<and>
           set [c1, c2, c3] \<subseteq> set (entry_species entry) \<and>
           distinct [name c1, name c2, name c3] \<and>
           fst (select_candidate e s3 w3 latitude longitude cls found)
             = Some ((hd (entry_species entry))\<lparr>lastUsed := clock w\<rparr>)"
    apply (rule exI [of _ c1], rule exI [of _ s1], rule exI [of _ w1])
    apply (rule exI [of _ c2], rule exI [of _ s2], rule exI [of _ w2])
    apply (rule exI [of _ c3], rule exI [of _ s3], rule exI [of _ w3])
    using sel1 sel2 sel3 clk mem d fourth apply (intro conjI)
          apply assumption+
    done
next
  assume "speciesType \<noteq> [] \<and> matching_class (toLowerCase speciesType) = Some cls \<and>
     entry_species entry \<noteq> []"
  with hit show "selectSpecies e s w latitude longitude (Some speciesType) =
         (case select_candidate e s w latitude longitude cls (slice0 50 (entry_species entry)) of
            (None, s', w') \<Rightarrow> (getFallbackSpecies, s', w')
          | (Some c, s', w') \<Rightarrow> (format_selection cls c, s', w'))"
    by (intro selectSpecies_on_hit) simp_all
qed

lemma find_index_present:
  assumes "x \<in> set xs" and "p x"
  shows "\<exists>i. find_index p xs = Some i"
  using assms by (induction xs) auto

text \<open>The stamp of a selection: the first cached species whose name in lower case is the
  candidate's.\<close>

lemma select_stamps:
  assumes hit: "getCachedEntry s la lo cls = Some entry"
    and rnd: "\<forall>n. 0 \<le> random e n \<and> random e n < 1"
    and ne: "entry_species entry \<noteq> []"
  shows "\<exists>c s' w' i.
           select_candidate e s w la lo cls found = (Some c, s', w') \<and>
           c \<in> set (entry_species entry) \<and> i < length (entry_species entry) \<and>
           toLowerCase (name (entry_species entry ! i)) = toLowerCase (name c) \<and>
           (\<forall>j < i. toLowerCase (name (entry_species entry ! j)) \<noteq> toLowerCase (name c)) \<and>
           getCachedEntry s' la lo cls =
             Some (entry\<lparr>entry_species :=
                     (entry_species entry)[i := (entry_species entry ! i)\<lparr>lastUsed := clock w\<rparr>]\<rparr>) \<and>
           clock w' = clock w"
proof -
  define cached where "cached = entry_species entry"
  define U where "U = filter (eligible (clock w) (twoDaysMs s)) cached"
  define w1 where "w1 = (if U \<noteq> [] then w\<lparr>rand_count := rand_count w + 1\<rparr> else w)"
  obtain c where c: "c \<in> set cached"
    and pick1: "U \<noteq> [] \<Longrightarrow> random_pick (random e (rand_count w)) U = Some c"
    and pick2: "U = [] \<Longrightarrow> hd (sort_key lastUsed cached) = c"
  proof (cases "U = []")
    case True
    from ne have "sort_key lastUsed cached \<noteq> []" by (simp add: sort_key_not_Nil cached_def)
    then have "hd (sort_key lastUsed cached) \<in> set (sort_key lastUsed cached)" by (rule hd_in_set)
    then have "hd (sort_key lastUsed cached) \<in> set cached" by simp
    with True show thesis using that [of "hd (sort_key lastUsed cached)"] by simp
  next
    case False
    from rnd have r: "0 \<le> random e (rand_count w)" "random e (rand_count w) < 1" by simp_all
    from random_pick_index [OF r False] obtain k where
      k: "k < length U" "random_pick (random e (rand_count w)) U = Some (U ! k)"
      by blast
    then have "U ! k \<in> set U" by simp
    then have "U ! k \<in> set cached" by (simp add: U_def)
    with False k(2) show thesis using that [of "U ! k"] by simp
  qed
  from find_index_present [OF c, of "\<lambda>x. toLowerCase (name x) = toLowerCase (name c)"]
  obtain i where fi: "find_index (\<lambda>x. toLowerCase (name x) = toLowerCase (name c)) cached = Some i"
    by auto
  from find_index_stamp [OF fi]
  have i: "i < length cached" "toLowerCase (name (cached ! i)) = toLowerCase (name c)"
    "\<forall>j < i. toLowerCase (name (cached ! j)) \<noteq> toLowerCase (name c)"
    by simp_all
  define stamped where "stamped = cached[i := (cached ! i)\<lparr>lastUsed := clock w\<rparr>]"
  have st: "stamp_used (clock w) c cached = Some stamped"
    by (simp add: stamp_used_def fi stamped_def)
  define s' where "s' = s\<lparr>cache := map_set (generateLocationKey la lo cls)
                                        (entry\<lparr>entry_species := stamped\<rparr>) (cache s)\<rparr>"
  from ne have ne': "cached \<noteq> []" by (simp add: cached_def)
  have sel: "select_candidate e s w la lo cls found = (Some c, s', w1)"
  proof (cases "U = []")
    case True
    with hit ne' st pick2 [OF True] show ?thesis
      by (simp add: select_candidate_def Let_def cached_def [symmetric] U_def [symmetric]
          s'_def w1_def)
  next
    case False
    with hit ne' st pick1 [OF False] show ?thesis
      by (simp add: select_candidate_def Let_def math_random_def cached_def [symmetric]
          U_def [symmetric] s'_def w1_def)
  qed
  have hit': "getCachedEntry s' la lo cls = Some (entry\<lparr>entry_species := stamped\<rparr>)"
    by (simp add: getCachedEntry_def s'_def map_of_map_set)
  have clk: "clock w1 = clock w" by (simp add: w1_def)
  from sel c i hit' clk show ?thesis
    unfolding stamped_def cached_def by blast
qed

text \<open>
  Claim C7, amended. On a cache entry, the selection splits the species into those that
  are eligible (never used, or last used at least the cooldown window ago) and the
  others. When some are eligible it returns the eligible species at the index
  \<open>\<lfloor>r \<sqdot> n\<rfloor>\<close>, where \<open>n\<close> is their number and \<open>r\<close> the random value: the index \<open>k\<close> exactly
  when \<open>k / n \<le> r < (k + 1) / n\<close>, so each of them for random values of the same measure.
  When none is eligible it returns the species whose \<open>lastUsed\<close> is the least, the first
  of them in the order of the cache entry when several share that stamp. Every
  selection stamps the first species of the entry whose name in lower case is the
  candidate's with the time of the selection. With three
  eligible species whose names differ pairwise also in lower case, a cooldown of two
  days and a clock after the epoch, three selections in a row at the same clock return
  three species of the entry with three different names; all three then carry the same
  stamp, and a fourth selection at that clock returns the first species of the cache
  entry, whichever of the three selections had chosen it. \<^verbatim>\<open>selectSpecies\<close>, asked for a
  type that names the class of the entry, returns the species so chosen in the format of
  the session manager.
\<close>

theorem selection_policy:
  assumes hit: "getCachedEntry s latitude longitude cls = Some entry"
    and rnd: "\<forall>n. 0 \<le> random e n \<and> random e n < 1"
  shows
   "(let unused = filter (\<lambda>x. lastUsed x = 0 \<or>
                                noRepeatDays s * 24 * 60 * 60 * 1000 \<le> clock w - lastUsed x)
                     (entry_species entry)
     in (unused \<noteq> [] \<longrightarrow>
           (\<exists>k < length unused.
               fst (select_candidate e s w latitude longitude cls found) = Some (unused ! k) \<and>
               real k / real (length unused) \<le> random e (rand_count w) \<and>
               random e (rand_count w) < (real k + 1) / real (length unused))) \<and>
        (entry_species entry \<noteq> [] \<and> unused = [] \<longrightarrow>
           (\<exists>i < length (entry_species entry).
               fst (select_candidate e s w latitude longitude cls found) = Some (entry_species entry ! i) \<and>
               (\<forall>x \<in> set (entry_species entry). lastUsed (entry_species entry ! i) \<le> lastUsed x) \<and>
               (\<forall>j < i. lastUsed (entry_species entry ! i) < lastUsed (entry_species entry ! j))))) \<and>
    (entry_species entry \<noteq> [] \<longrightarrow>
       (\<exists>c s' w' i.
           select_candidate e s w latitude longitude cls found = (Some c, s', w') \<and>
           c \<in> set (entry_species entry) \<and> i < length (entry_species entry) \<and>
           toLowerCase (name (entry_species entry ! i)) = toLowerCase (name c) \<and>
           (\<forall>j < i. toLowerCase (name (entry_species entry ! j)) \<noteq> toLowerCase (name c)) \<and>
           getCachedEntry s' latitude longitude cls =
             Some (entry\<lparr>entry_species :=
                     (entry_species entry)[i := (entry_species entry ! i)\<lparr>lastUsed := clock w\<rparr>]\<rparr>) \<and>
           clock w' = clock w)) \<and>
    (length (entry_species entry) = 3 \<and>
     (\<forall>x \<in> set (entry_species entry). lastUsed x = 0 \<or> 172800000 \<le> clock w - lastUsed x) \<and>
     distinct (map (\<lambda>x. toLowerCase (name x)) (entry_species entry)) \<and>
     noRepeatDays s = 2 \<and> 0 < clock w \<longrightarrow>
       (\<exists>c1 s1 w1 c2 s2 w2 c3 s3 w3.
           select_candidate e s w latitude longitude cls found = (Some c1, s1, w1) \<and>
           select_candidate e s1 w1 latitude longitude cls found = (Some c2, s2, w2) \<and>
           select_candidate e s2 w2 latitude longitude cls found = (Some c3, s3, w3) \<and>
           clock w3 = clock w \<and>
           set [c1, c2, c3] \<subseteq> set (entry_species entry) \<and>
           distinct [name c1, name c2, name c3] \<and>
           fst (select_candidate e s3 w3 latitude longitude cls found)
             = Some ((hd (entry_species entry))\<lparr>lastUsed := clock w\<rparr>))) \<and>
    (speciesType \<noteq> [] \<and> matching_class (toLowerCase speciesType) = Some cls \<and>
     entry_species entry \<noteq> [] \<longrightarrow>
       selectSpecies e s w latitude longitude (Some speciesType) =
         (case select_candidate e s w latitude longitude cls (slice0 50 (entry_species entry)) of
            (None, s', w') \<Rightarrow> (getFallbackSpecies, s', w')
          | (Some c, s', w') \<Rightarrow> (format_selection cls c, s', w')))"
proof -
  note pol = selection_policy_eligible [OF hit rnd, of w found speciesType]
  have el: "eligible (clock w) (twoDaysMs s)
      = (\<lambda>x. lastUsed x = 0 \<or> noRepeatDays s * 24 * 60 * 60 * 1000 \<le> clock w - lastUsed x)"
    by (simp add: fun_eq_iff eligible_def twoDaysMs_def)
  have p12: "let unused = filter (\<lambda>x. lastUsed x = 0 \<or>
                                noRepeatDays s * 24 * 60 * 60 * 1000 \<le> clock w - lastUsed x)
                     (entry_species entry)
     in (unused \<noteq> [] \<longrightarrow>
           (\<exists>k < length unused.
               fst (select_candidate e s w latitude longitude cls found) = Some (unused ! k) \<and>
               real k / real (length unused) \<le> random e (rand_count w) \<and>
               random e (rand_count w) < (real k + 1) / real (length unused))) \<and>
        (entry_species entry \<noteq> [] \<and> unused = [] \<longrightarrow>
           (\<exists>i < length (entry_species entry).
               fst (select_candidate e s w latitude longitude cls found) = Some (entry_species entry ! i) \<and>
               (\<forall>x \<in> set (entry_species entry). lastUsed (entry_species entry ! i) \<le> lastUsed x) \<and>
               (\<forall>j < i. lastUsed (entry_species entry ! i) < lastUsed (entry_species entry ! j))))"
    unfolding Let_def el [symmetric]
    using pol [THEN conjunct1] pol [THEN conjunct2, THEN conjunct1] by (rule conjI)
  have p5: "entry_species entry \<noteq> [] \<longrightarrow>
       (\<exists>c s' w' i.
           select_candidate e s w latitude longitude cls found = (Some c, s', w') \<and>
           c \<in> set (entry_species entry) \<and> i < length (entry_species entry) \<and>
           toLowerCase (name (entry_species entry ! i)) = toLowerCase (name c) \<and>
           (\<forall>j < i. toLowerCase (name (entry_species entry ! j)) \<noteq> toLowerCase (name c)) \<and>
           getCachedEntry s' latitude longitude cls =
             Some (entry\<lparr>entry_species :=
                     (entry_species entry)[i := (entry_species entry ! i)\<lparr>lastUsed := clock w\<rparr>]\<rparr>) \<and>
           clock w' = clock w)"
    using select_stamps [OF hit rnd, of w found] by blast
  have p3: "length (entry_species entry) = 3 \<and>
     (\<forall>x \<in> set (entry_species entry). lastUsed x = 0 \<or> 172800000 \<le> clock w - lastUsed x) \<and>
     distinct (map (\<lambda>x. toLowerCase (name x)) (entry_species entry)) \<and>
     noRepeatDays s = 2 \<and> 0 < clock w \<longrightarrow>
       (\<exists>c1 s1 w1 c2 s2 w2 c3 s3 w3.
           select_candidate e s w latitude longitude cls found = (Some c1, s1, w1) \<and>
           select_candidate e s1 w1 latitude longitude cls found = (Some c2, s2, w2) \<and>
           select_candidate e s2 w2 latitude longitude cls found = (Some c3, s3, w3) \<and>
           clock w3 = clock w \<and>
           set [c1, c2, c3] \<subseteq> set (entry_species entry) \<and>
           distinct [name c1, name c2, name c3] \<and>
           fst (select_candidate e s3 w3 latitude longitude cls found)
             = Some ((hd (entry_species entry))\<lparr>lastUsed := clock w\<rparr>))"
  proof
    assume a: "length (entry_species entry) = 3 \<and>
     (\<forall>x \<in> set (entry_species entry). lastUsed x = 0 \<or> 172800000 \<le> clock w - lastUsed x) \<and>
     distinct (map (\<lambda>x. toLowerCase (name x)) (entry_species entry)) \<and>
     noRepeatDays s = 2 \<and> 0 < clock w"
    then have "length (entry_species entry) = 3 \<and>
     (\<forall>x \<in> set (entry_species entry). eligible (clock w) (twoDaysMs s) x) \<and>
     names_differ (entry_species entry) \<and> noRepeatDays s = 2 \<and> 0 < clock w"
      by (simp add: eligible_def twoDaysMs_def names_differ_def)
    with pol [THEN conjunct2, THEN conjunct2, THEN conjunct1]
    show "\<exists>c1 s1 w1 c2 s2 w2 c3 s3 w3.
           select_candidate e s w latitude longitude cls found = (Some c1, s1, w1) \<and>
           select_candidate e s1 w1 latitude longitude cls found = (Some c2, s2, w2) \<and>
           select_candidate e s2 w2 latitude longitude cls found = (Some c3, s3, w3) \<and>
           clock w3 = clock w \<and>
           set [c1, c2, c3] \<subseteq> set (entry_species entry) \<and>
           distinct [name c1, name c2, name c3] \<and>
           fst (select_candidate e s3 w3 latitude longitude cls found)
             = Some ((hd (entry_species entry))\<lparr>lastUsed := clock w\<rparr>)"
      by (rule mp)
  qed
  from p12 p5 p3 pol [THEN conjunct2, THEN conjunct2, THEN conjunct2]
  show ?thesis by (intro conjI)
qed

text \<open>The upstream answers that seed the cache in the runs below, and what the cache
  holds for them.\<close>

lemma garden_fetch:
  "case fetchFromGBIF (upstream garden_records) (new_service None) start_world 34 (-117) birds 50 of
     (found, s, w) \<Rightarrow>
       map (normalize_species birds) found = garden_birds 0 0 0 \<and>
       length found = 3 \<and> noRepeatDays s = 2 \<and> clock w = 1700000000290"
  by code_simp

lemma sharp_fetch:
  "case fetchFromGBIF (upstream sharp_records) (new_service None) start_world 34 (-117) birds 50 of
     (found, s, w) \<Rightarrow>
       map (normalize_species birds) found = sharp_birds 0 0 0 \<and>
       length found = 3 \<and> noRepeatDays s = 2 \<and> clock w = 1700000000290"
  by code_simp

lemma cached_after_cacheSpecies:
  "getCachedEntry (cacheSpecies now s la lo c spp) la lo c = Some (new_cache_entry now la lo c spp)"
  by (simp add: getCachedEntry_def cacheSpecies_def Let_def map_of_map_set)

lemma entry_species_new: "entry_species (new_cache_entry now la lo c spp) = map (normalize_species c) spp"
  by (simp add: new_cache_entry_def Let_def)

lemma noRepeatDays_cacheSpecies: "noRepeatDays (cacheSpecies now s la lo c spp) = noRepeatDays s"
  by (simp add: cacheSpecies_def Let_def)

text \<open>The call that seeds the cache: the first upstream request delivers three species,
  which go into the cache of the place.\<close>

lemma seed_run:
  assumes "fetchFromGBIF (upstream rs) (new_service None) start_world 34 (-117) birds 50 = (found, sF, wF)"
    and "map (normalize_species birds) found = cached"
    and "length found = 3" and "noRepeatDays sF = 2"
  obtains s entry where
    "seed rs = (found, s, wF)"
    "getCachedEntry s 34 (-117) birds = Some entry"
    "entry_species entry = cached"
    "twoDaysMs s = 172800000" "noRepeatDays s = 2"
proof -
  have miss: "getCachedEntry (new_service None) 34 (-117) birds = None"
    by (simp add: getCachedEntry_def new_service_def)
  define s where "s = cacheSpecies (clock wF) sF 34 (-117) birds found"
  have "seed rs = (found, s, wF)"
    unfolding seed_def getSpeciesForClass_def miss using assms(1,3) by (simp add: s_def)
  moreover have "getCachedEntry s 34 (-117) birds = Some (new_cache_entry (clock wF) 34 (-117) birds found)"
    unfolding s_def by (rule cached_after_cacheSpecies)
  moreover have "entry_species (new_cache_entry (clock wF) 34 (-117) birds found) = cached"
    using assms(2) by (simp add: entry_species_new)
  moreover have "noRepeatDays s = 2" using assms(4) by (simp add: s_def noRepeatDays_cacheSpecies)
  moreover from this have "twoDaysMs s = 172800000" by (simp add: twoDaysMs_def)
  ultimately show thesis using that by blast
qed

text \<open>A selection on a cache entry with eligible species, and one on an entry without.\<close>

lemma select_eligible_run:
  assumes hit: "getCachedEntry s la lo cls = Some entry"
    and U: "filter (eligible (clock w) (twoDaysMs s)) (entry_species entry) = U"
    and pick: "random_pick (random e (rand_count w)) U = Some c"
    and st: "stamp_used (clock w) c (entry_species entry) = Some stamped"
  obtains s' w' where
    "select_candidate e s w la lo cls found = (Some c, s', w')"
    "getCachedEntry s' la lo cls = Some (entry\<lparr>entry_species := stamped\<rparr>)"
    "twoDaysMs s' = twoDaysMs s" "clock w' = clock w"
proof -
  from pick have ne: "U \<noteq> []" by (auto simp: random_pick_def Let_def)
  with U have ne': "entry_species entry \<noteq> []" by auto
  define s' where "s' = s\<lparr>cache := map_set (generateLocationKey la lo cls)
                                        (entry\<lparr>entry_species := stamped\<rparr>) (cache s)\<rparr>"
  define w' where "w' = w\<lparr>rand_count := rand_count w + 1\<rparr>"
  have "select_candidate e s w la lo cls found = (Some c, s', w')"
    using hit ne ne' pick st
    by (simp add: select_candidate_def Let_def math_random_def U s'_def w'_def)
  moreover have "getCachedEntry s' la lo cls = Some (entry\<lparr>entry_species := stamped\<rparr>)"
    by (simp add: getCachedEntry_def s'_def map_of_map_set)
  moreover have "twoDaysMs s' = twoDaysMs s" by (simp add: twoDaysMs_def s'_def)
  moreover have "clock w' = clock w" by (simp add: w'_def)
  ultimately show thesis using that by blast
qed

lemma random_const [simp]: "random (upstream rs) n = 1 / 2"
  by (simp add: upstream_def const_env_def)

lemma clock_sleep [simp]: "clock (sleep d w) = clock w + d"
  by (simp add: sleep_def)

lemma pick_second_of_three: "random_pick (1 / 2) [a, b, c] = Some b"
  by (simp add: random_pick_def)

lemma pick_second_of_two: "random_pick (1 / 2) [a, b] = Some b"
  by (simp add: random_pick_def)

lemma pick_only: "random_pick (1 / 2) [a] = Some a"
  by (simp add: random_pick_def)

lemma run_step:
  assumes hit: "getCachedEntry s la lo cls = Some entry"
    and es: "entry_species entry = cached"
    and T: "twoDaysMs s = T" and clk: "clock w = now"
    and U: "filter (eligible now T) cached = U"
    and pick: "random_pick (1 / 2) U = Some c"
    and st: "stamp_used now c cached = Some stamped"
  obtains s' w' entry' where
    "select_candidate (upstream rs) s w la lo cls found = (Some c, s', w')"
    "getCachedEntry s' la lo cls = Some entry'" "entry_species entry' = stamped"
    "twoDaysMs s' = T" "clock w' = now"
proof -
  have U': "filter (eligible (clock w) (twoDaysMs s)) (entry_species entry) = U"
    by (simp add: es T clk U)
  have pick': "random_pick (random (upstream rs) (rand_count w)) U = Some c"
    by (simp add: pick)
  have st': "stamp_used (clock w) c (entry_species entry) = Some stamped"
    by (simp add: es clk st)
  obtain s' w' where
    "select_candidate (upstream rs) s w la lo cls found = (Some c, s', w')"
    "getCachedEntry s' la lo cls = Some (entry\<lparr>entry_species := stamped\<rparr>)"
    "twoDaysMs s' = twoDaysMs s" "clock w' = clock w"
    by (rule select_eligible_run [OF hit U' pick' st', of found])
  then show thesis using that [of s' w' "entry\<lparr>entry_species := stamped\<rparr>"] T clk by simp
qed

lemma run_last:
  assumes hit: "getCachedEntry s la lo cls = Some entry"
    and es: "entry_species entry = cached"
    and T: "twoDaysMs s = T" and clk: "clock w = now"
    and U: "filter (eligible now T) cached = []" and ne: "cached \<noteq> []"
  shows "fst (select_candidate e s w la lo cls found) = Some (hd (sort_key lastUsed cached))"
  using select_lru [OF hit, of w e found] es T clk U ne by simp

lemma select_run_step:
  assumes "select_candidate e s w la lo cls [] = (c, s1, w1)"
  shows "fst (select_run (Suc n) d e s w la lo cls) = c # fst (select_run n d e s1 (sleep d w1) la lo cls)"
    and "snd (select_run (Suc n) d e s w la lo cls) = snd (select_run n d e s1 (sleep d w1) la lo cls)"
  using assms by (simp_all add: split_beta)

lemma select_run_last:
  "fst (select_run (Suc 0) d e s w la lo cls) = [fst (select_candidate e s w la lo cls [])]"
  by (simp add: split_beta)

lemma sharp_run:
  "map (map_option name)
     (fst (select_run 3 0 (upstream sharp_records) (seeded_service sharp_records)
             (seeded_world sharp_records) 34 (-117) birds))
     = [Some (''Ss '' @ [CHR 0xC9]), Some ''American Robin'', Some (''Ss '' @ [CHR 0xC9])]"
proof -
  obtain found sF wF where
    f: "fetchFromGBIF (upstream sharp_records) (new_service None) start_world 34 (-117) birds 50
          = (found, sF, wF)"
    by (metis prod_cases3)
  with sharp_fetch have n: "map (normalize_species birds) found = sharp_birds 0 0 0"
    and l: "length found = 3" and days: "noRepeatDays sF = 2" and clk0: "clock wF = 1700000000290"
    by simp_all
  obtain s0 entry0 where seed: "seed sharp_records = (found, s0, wF)"
    and hit0: "getCachedEntry s0 34 (-117) birds = Some entry0"
    and es0: "entry_species entry0 = sharp_birds 0 0 0"
    and T0: "twoDaysMs s0 = 172800000"
    by (rule seed_run [OF f n l days])
  have F1: "filter (eligible 1700000000290 172800000) (sharp_birds 0 0 0) = sharp_birds 0 0 0 ! 0 # [sharp_birds 0 0 0 ! 1, sharp_birds 0 0 0 ! 2]"
    by code_simp
  have S1: "stamp_used 1700000000290 (sharp_birds 0 0 0 ! 1) (sharp_birds 0 0 0)
      = Some (sharp_birds 1700000000290 0 0)"
    by code_simp
  obtain s1 w1 entry1 where
    sel1: "select_candidate (upstream sharp_records) s0 wF 34 (-117) birds [] = (Some (sharp_birds 0 0 0 ! 1), s1, w1)"
    and hit1: "getCachedEntry s1 34 (-117) birds = Some entry1"
    and es1: "entry_species entry1 = sharp_birds 1700000000290 0 0"
    and T1: "twoDaysMs s1 = 172800000" and clk1: "clock w1 = 1700000000290"
    by (rule run_step [OF hit0 es0 T0 clk0 F1 pick_second_of_three S1, of sharp_records "[]"])
  have clk1': "clock (sleep 0 w1) = 1700000000290" by (simp add: clk1)
  have F2: "filter (eligible 1700000000290 172800000) (sharp_birds 1700000000290 0 0)
      = [sharp_birds 1700000000290 0 0 ! 1, sharp_birds 1700000000290 0 0 ! 2]"
    by code_simp
  have S2: "stamp_used 1700000000290 (sharp_birds 1700000000290 0 0 ! 2) (sharp_birds 1700000000290 0 0)
      = Some (sharp_birds 1700000000290 0 1700000000290)"
    by code_simp
  obtain s2 w2 entry2 where
    sel2: "select_candidate (upstream sharp_records) s1 (sleep 0 w1) 34 (-117) birds []
             = (Some (sharp_birds 1700000000290 0 0 ! 2), s2, w2)"
    and hit2: "getCachedEntry s2 34 (-117) birds = Some entry2"
    and es2: "entry_species entry2 = sharp_birds 1700000000290 0 1700000000290"
    and T2: "twoDaysMs s2 = 172800000" and clk2: "clock w2 = 1700000000290"
    by (rule run_step [OF hit1 es1 T1 clk1' F2 pick_second_of_two S2, of sharp_records "[]"])
  have clk2': "clock (sleep 0 w2) = 1700000000290" by (simp add: clk2)
  have F3: "filter (eligible 1700000000290 172800000) (sharp_birds 1700000000290 0 1700000000290)
      = [sharp_birds 1700000000290 0 1700000000290 ! 1]"
    by code_simp
  have S3: "stamp_used 1700000000290 (sharp_birds 1700000000290 0 1700000000290 ! 1)
        (sharp_birds 1700000000290 0 1700000000290)
      = Some (sharp_birds 1700000000290 0 1700000000290)"
    by code_simp
  obtain s3 w3 entry3 where
    sel3: "select_candidate (upstream sharp_records) s2 (sleep 0 w2) 34 (-117) birds []
             = (Some (sharp_birds 1700000000290 0 1700000000290 ! 1), s3, w3)"
    by (rule run_step [OF hit2 es2 T2 clk2' F3 pick_only S3, of sharp_records "[]"])
  have "fst (select_run 3 0 (upstream sharp_records) s0 wF 34 (-117) birds)
      = [Some (sharp_birds 0 0 0 ! 1), Some (sharp_birds 1700000000290 0 0 ! 2),
         Some (sharp_birds 1700000000290 0 1700000000290 ! 1)]"
    unfolding numeral_3_eq_3 select_run_step(1) [OF sel1] select_run_step(1) [OF sel2]
      select_run_last sel3
    by simp
  then show ?thesis
    by (simp add: seeded_service_def seeded_world_def seed sharp_birds_def gbif_bird_def)
qed

lemma garden_seeded:
  obtains found s0 w0 entry0 where
    "seed garden_records = (found, s0, w0)"
    "getCachedEntry s0 34 (-117) birds = Some entry0"
    "entry_species entry0 = garden_birds 0 0 0"
    "twoDaysMs s0 = 172800000" "noRepeatDays s0 = 2" "clock w0 = 1700000000290"
proof -
  obtain found sF wF where
    f: "fetchFromGBIF (upstream garden_records) (new_service None) start_world 34 (-117) birds 50
          = (found, sF, wF)"
    by (metis prod_cases3)
  with garden_fetch have n: "map (normalize_species birds) found = garden_birds 0 0 0"
    and l: "length found = 3" and days: "noRepeatDays sF = 2" and clk0: "clock wF = 1700000000290"
    by simp_all
  obtain s0 entry0 where "seed garden_records = (found, s0, wF)"
    "getCachedEntry s0 34 (-117) birds = Some entry0"
    "entry_species entry0 = garden_birds 0 0 0"
    "twoDaysMs s0 = 172800000" "noRepeatDays s0 = 2"
    by (rule seed_run [OF f n l days])
  with clk0 show thesis using that by blast
qed

lemma garden_frozen_run:
  "map (map_option name)
     (fst (select_run 4 0 (upstream garden_records) (seeded_service garden_records)
             (seeded_world garden_records) 34 (-117) birds))
     = [Some ''Rock Dove'', Some ''American Robin'', Some ''House Sparrow'', Some ''House Sparrow'']"
proof -
  obtain found s0 w0 entry0 where seed: "seed garden_records = (found, s0, w0)"
    and hit0: "getCachedEntry s0 34 (-117) birds = Some entry0"
    and es0: "entry_species entry0 = garden_birds 0 0 0"
    and T0: "twoDaysMs s0 = 172800000" and clk0: "clock w0 = 1700000000290"
    by (rule garden_seeded)
  have F1: "filter (eligible 1700000000290 172800000) (garden_birds 0 0 0)
      = [garden_birds 0 0 0 ! 0, garden_birds 0 0 0 ! 1, garden_birds 0 0 0 ! 2]"
    by code_simp
  have S1: "stamp_used 1700000000290 (garden_birds 0 0 0 ! 1) (garden_birds 0 0 0)
      = Some (garden_birds 0 1700000000290 0)"
    by code_simp
  obtain s1 w1 entry1 where
    sel1: "select_candidate (upstream garden_records) s0 w0 34 (-117) birds []
             = (Some (garden_birds 0 0 0 ! 1), s1, w1)"
    and hit1: "getCachedEntry s1 34 (-117) birds = Some entry1"
    and es1: "entry_species entry1 = garden_birds 0 1700000000290 0"
    and T1: "twoDaysMs s1 = 172800000" and clk1: "clock w1 = 1700000000290"
    by (rule run_step [OF hit0 es0 T0 clk0 F1 pick_second_of_three S1, of garden_records "[]"])
  have clk1': "clock (sleep 0 w1) = 1700000000290" by (simp add: clk1)
  have F2: "filter (eligible 1700000000290 172800000) (garden_birds 0 1700000000290 0)
      = [garden_birds 0 1700000000290 0 ! 0, garden_birds 0 1700000000290 0 ! 2]"
    by code_simp
  have S2: "stamp_used 1700000000290 (garden_birds 0 1700000000290 0 ! 2) (garden_birds 0 1700000000290 0)
      = Some (garden_birds 0 1700000000290 1700000000290)"
    by code_simp
  obtain s2 w2 entry2 where
    sel2: "select_candidate (upstream garden_records) s1 (sleep 0 w1) 34 (-117) birds []
             = (Some (garden_birds 0 1700000000290 0 ! 2), s2, w2)"
    and hit2: "getCachedEntry s2 34 (-117) birds = Some entry2"
    and es2: "entry_species entry2 = garden_birds 0 1700000000290 1700000000290"
    and T2: "twoDaysMs s2 = 172800000" and clk2: "clock w2 = 1700000000290"
    by (rule run_step [OF hit1 es1 T1 clk1' F2 pick_second_of_two S2, of garden_records "[]"])
  have clk2': "clock (sleep 0 w2) = 1700000000290" by (simp add: clk2)
  have F3: "filter (eligible 1700000000290 172800000) (garden_birds 0 1700000000290 1700000000290)
      = [garden_birds 0 1700000000290 1700000000290 ! 0]"
    by code_simp
  have S3: "stamp_used 1700000000290 (garden_birds 0 1700000000290 1700000000290 ! 0)
        (garden_birds 0 1700000000290 1700000000290)
      = Some (garden_birds 1700000000290 1700000000290 1700000000290)"
    by code_simp
  obtain s3 w3 entry3 where
    sel3: "select_candidate (upstream garden_records) s2 (sleep 0 w2) 34 (-117) birds []
             = (Some (garden_birds 0 1700000000290 1700000000290 ! 0), s3, w3)"
    and hit3: "getCachedEntry s3 34 (-117) birds = Some entry3"
    and es3: "entry_species entry3 = garden_birds 1700000000290 1700000000290 1700000000290"
    and T3: "twoDaysMs s3 = 172800000" and clk3: "clock w3 = 1700000000290"
    by (rule run_step [OF hit2 es2 T2 clk2' F3 pick_only S3, of garden_records "[]"])
  have clk3': "clock (sleep 0 w3) = 1700000000290" by (simp add: clk3)
  have F4: "filter (eligible 1700000000290 172800000)
        (garden_birds 1700000000290 1700000000290 1700000000290) = []"
    by code_simp
  have ne: "garden_birds 1700000000290 1700000000290 1700000000290 \<noteq> []"
    by (simp add: garden_birds_def)
  have L4: "hd (sort_key lastUsed (garden_birds 1700000000290 1700000000290 1700000000290))
      = garden_birds 1700000000290 1700000000290 1700000000290 ! 0"
    by code_simp
  have sel4: "fst (select_candidate (upstream garden_records) s3 (sleep 0 w3) 34 (-117) birds [])
      = Some (garden_birds 1700000000290 1700000000290 1700000000290 ! 0)"
    using run_last [OF hit3 es3 T3 clk3' F4 ne, of "upstream garden_records" "[]"] L4 by simp
  have n4: "(4::nat) = Suc (Suc (Suc (Suc 0)))" by simp
  have "fst (select_run 4 0 (upstream garden_records) s0 w0 34 (-117) birds)
      = [Some (garden_birds 0 0 0 ! 1), Some (garden_birds 0 1700000000290 0 ! 2),
         Some (garden_birds 0 1700000000290 1700000000290 ! 0),
         Some (garden_birds 1700000000290 1700000000290 1700000000290 ! 0)]"
    unfolding n4 select_run_step(1) [OF sel1] select_run_step(1) [OF sel2]
      select_run_step(1) [OF sel3] select_run_last sel4
    by simp
  then show ?thesis
    by (simp add: seeded_service_def seeded_world_def seed garden_birds_def gbif_bird_def)
qed

lemma garden_later_run:
  obtains entry3 where
    "getCachedEntry (fst garden_later) 34 (-117) birds = Some entry3"
    "entry_species entry3 = garden_birds 1700000002290 1700000000290 1700000001290"
    "twoDaysMs (fst garden_later) = 172800000" "clock (snd garden_later) = 1700000003290"
proof -
  obtain found s0 w0 entry0 where seed: "seed garden_records = (found, s0, w0)"
    and hit0: "getCachedEntry s0 34 (-117) birds = Some entry0"
    and es0: "entry_species entry0 = garden_birds 0 0 0"
    and T0: "twoDaysMs s0 = 172800000" and clk0: "clock w0 = 1700000000290"
    by (rule garden_seeded)
  have F1: "filter (eligible 1700000000290 172800000) (garden_birds 0 0 0)
      = [garden_birds 0 0 0 ! 0, garden_birds 0 0 0 ! 1, garden_birds 0 0 0 ! 2]"
    by code_simp
  have S1: "stamp_used 1700000000290 (garden_birds 0 0 0 ! 1) (garden_birds 0 0 0)
      = Some (garden_birds 0 1700000000290 0)"
    by code_simp
  obtain s1 w1 entry1 where
    sel1: "select_candidate (upstream garden_records) s0 w0 34 (-117) birds []
             = (Some (garden_birds 0 0 0 ! 1), s1, w1)"
    and hit1: "getCachedEntry s1 34 (-117) birds = Some entry1"
    and es1: "entry_species entry1 = garden_birds 0 1700000000290 0"
    and T1: "twoDaysMs s1 = 172800000" and clk1: "clock w1 = 1700000000290"
    by (rule run_step [OF hit0 es0 T0 clk0 F1 pick_second_of_three S1, of garden_records "[]"])
  have clk1': "clock (sleep 1000 w1) = 1700000001290" by (simp add: clk1)
  have F2: "filter (eligible 1700000001290 172800000) (garden_birds 0 1700000000290 0)
      = [garden_birds 0 1700000000290 0 ! 0, garden_birds 0 1700000000290 0 ! 2]"
    by code_simp
  have S2: "stamp_used 1700000001290 (garden_birds 0 1700000000290 0 ! 2) (garden_birds 0 1700000000290 0)
      = Some (garden_birds 0 1700000000290 1700000001290)"
    by code_simp
  obtain s2 w2 entry2 where
    sel2: "select_candidate (upstream garden_records) s1 (sleep 1000 w1) 34 (-117) birds []
             = (Some (garden_birds 0 1700000000290 0 ! 2), s2, w2)"
    and hit2: "getCachedEntry s2 34 (-117) birds = Some entry2"
    and es2: "entry_species entry2 = garden_birds 0 1700000000290 1700000001290"
    and T2: "twoDaysMs s2 = 172800000" and clk2: "clock w2 = 1700000001290"
    by (rule run_step [OF hit1 es1 T1 clk1' F2 pick_second_of_two S2, of garden_records "[]"])
  have clk2': "clock (sleep 1000 w2) = 1700000002290" by (simp add: clk2)
  have F3: "filter (eligible 1700000002290 172800000) (garden_birds 0 1700000000290 1700000001290)
      = [garden_birds 0 1700000000290 1700000001290 ! 0]"
    by code_simp
  have S3: "stamp_used 1700000002290 (garden_birds 0 1700000000290 1700000001290 ! 0)
        (garden_birds 0 1700000000290 1700000001290)
      = Some (garden_birds 1700000002290 1700000000290 1700000001290)"
    by code_simp
  obtain s3 w3 entry3 where
    sel3: "select_candidate (upstream garden_records) s2 (sleep 1000 w2) 34 (-117) birds []
             = (Some (garden_birds 0 1700000000290 1700000001290 ! 0), s3, w3)"
    and hit3: "getCachedEntry s3 34 (-117) birds = Some entry3"
    and es3: "entry_species entry3 = garden_birds 1700000002290 1700000000290 1700000001290"
    and T3: "twoDaysMs s3 = 172800000" and clk3: "clock w3 = 1700000002290"
    by (rule run_step [OF hit2 es2 T2 clk2' F3 pick_only S3, of garden_records "[]"])
  have "snd (select_run 3 1000 (upstream garden_records) s0 w0 34 (-117) birds) = (s3, sleep 1000 w3)"
    unfolding numeral_3_eq_3 select_run_step(2) [OF sel1] select_run_step(2) [OF sel2]
      select_run_step(2) [OF sel3]
    by simp
  then have gl: "garden_later = (s3, sleep 1000 w3)"
    by (simp add: garden_later_def seeded_service_def seeded_world_def seed)
  show thesis
    by (rule that [of entry3]) (simp_all add: gl hit3 es3 T3 clk3)
qed

lemma sharp_cached:
  "map_option (\<lambda>entry. map name (entry_species entry))
     (getCachedEntry (seeded_service sharp_records) 34 (-117) birds)
     = Some [''SS '' @ [CHR 0xC9], ''Ss '' @ [CHR 0xC9], ''American Robin'']"
proof -
  obtain found sF wF where
    f: "fetchFromGBIF (upstream sharp_records) (new_service None) start_world 34 (-117) birds 50
          = (found, sF, wF)"
    by (metis prod_cases3)
  with sharp_fetch have n: "map (normalize_species birds) found = sharp_birds 0 0 0"
    and l: "length found = 3" and days: "noRepeatDays sF = 2"
    by simp_all
  obtain s0 entry0 where "seed sharp_records = (found, s0, wF)"
    "getCachedEntry s0 34 (-117) birds = Some entry0"
    "entry_species entry0 = sharp_birds 0 0 0"
    by (rule seed_run [OF f n l days])
  then show ?thesis
    by (simp add: seeded_service_def sharp_birds_def gbif_bird_def)
qed

text \<open>
  Claim C7 as stated fails in two ways. Distinct names are not enough: for the two
  records without a vernacular name the cache holds names that differ in the case of
  one letter only (\<^verbatim>\<open>toUpperCase\<close> turns the sharp s of the first into \<^verbatim>\<open>SS\<close>, the second
  starts with \<^verbatim>\<open>Ss\<close>); the stamp goes to the first cached species whose name is the
  candidate's in lower case, so the second species, selected first, stays eligible and
  is selected again in the third selection. And at a frozen clock the fourth selection
  does not return the species that was used the longest ago: of the three garden birds
  it returns the House Sparrow, which the third selection had chosen, not the Rock Dove
  of the first.
\<close>

theorem repeated_selection_counterexample:
  "map_option (\<lambda>entry. map name (entry_species entry))
     (getCachedEntry (seeded_service sharp_records) 34 (-117) birds)
     = Some [''SS '' @ [CHR 0xC9], ''Ss '' @ [CHR 0xC9], ''American Robin''] \<and>
   map (map_option name)
     (fst (select_run 3 0 (upstream sharp_records) (seeded_service sharp_records)
             (seeded_world sharp_records) 34 (-117) birds))
     = [Some (''Ss '' @ [CHR 0xC9]), Some ''American Robin'', Some (''Ss '' @ [CHR 0xC9])] \<and>
   map (map_option name)
     (fst (select_run 4 0 (upstream garden_records) (seeded_service garden_records)
             (seeded_world garden_records) 34 (-117) birds))
     = [Some ''Rock Dove'', Some ''American Robin'', Some ''House Sparrow'', Some ''House Sparrow'']"
  using sharp_cached sharp_run garden_frozen_run by (intro conjI)

lemma sharp_seeded:
  obtains found s0 w0 entry0 where
    "seed sharp_records = (found, s0, w0)"
    "getCachedEntry s0 34 (-117) birds = Some entry0"
    "entry_species entry0 = sharp_birds 0 0 0"
    "twoDaysMs s0 = 172800000" "noRepeatDays s0 = 2" "clock w0 = 1700000000290"
proof -
  obtain found sF wF where
    f: "fetchFromGBIF (upstream sharp_records) (new_service None) start_world 34 (-117) birds 50
          = (found, sF, wF)"
    by (metis prod_cases3)
  with sharp_fetch have n: "map (normalize_species birds) found = sharp_birds 0 0 0"
    and l: "length found = 3" and days: "noRepeatDays sF = 2" and clk0: "clock wF = 1700000000290"
    by simp_all
  obtain s0 entry0 where "seed sharp_records = (found, s0, wF)"
    "getCachedEntry s0 34 (-117) birds = Some entry0"
    "entry_species entry0 = sharp_birds 0 0 0"
    "twoDaysMs s0 = 172800000" "noRepeatDays s0 = 2"
    by (rule seed_run [OF f n l days])
  with clk0 show thesis using that by blast
qed

lemma garden_lower:
  "map (\<lambda>x. toLowerCase (name x)) (garden_birds t0 t1 t2)
     = [''house sparrow'', ''rock dove'', ''american robin'']"
  by (simp add: garden_birds_def gbif_bird_def) code_simp

lemma sharp_lower:
  "map (\<lambda>x. toLowerCase (name x)) (sharp_birds t0 t1 t2)
     = [''ss '' @ [CHR 0xE9], ''ss '' @ [CHR 0xE9], ''american robin'']"
  by (simp add: sharp_birds_def gbif_bird_def) code_simp

lemma garden_hd: "hd (garden_birds t0 t1 t2) = gbif_bird ''House Sparrow'' ''Passer domesticus'' ''urban'' t0"
  by (simp add: garden_birds_def)

lemma middle_of_three:
  assumes "\<exists>k < length U. sel = Some (U ! k) \<and> real k / real (length U) \<le> 1 / 2 \<and>
             1 / 2 < (real k + 1) / real (length U)"
    and "length U = 3"
  shows "sel = Some (U ! 1)"
proof -
  from assms obtain k where k: "sel = Some (U ! k)" "real k / 3 \<le> 1 / 2" "1 / 2 < (real k + 1) / 3"
    by auto
  from k(2,3) have "2 * real k \<le> 3" "3 < 2 * real k + 2" by (simp_all add: field_simps)
  then have "2 * k \<le> 3" "3 < 2 * k + 2" by linarith+
  then have "k = 1" by simp
  with k(1) show ?thesis by simp
qed

text \<open>The theorem at the three garden birds, freshly cached: the first selection takes
  the middle one of the three, three selections at the same clock are followed by the
  first species of the entry, and \<^verbatim>\<open>selectSpecies\<close> returns the Rock Dove. Its second part
  one second after three selections that were one second apart: the fourth selection
  returns the Rock Dove, the species of the first. Its third part at the cache of the
  records without vernacular names: the selection of the second species stamps the
  first.\<close>

theorem selection_policy_witness:
  "fst (select_candidate (upstream garden_records) (seeded_service garden_records)
          (seeded_world garden_records) 34 (-117) birds [])
     = Some (garden_birds 0 0 0 ! 1) \<and>
   (\<exists>c1 s1 w1 c2 s2 w2 c3 s3 w3.
      select_candidate (upstream garden_records) (seeded_service garden_records)
        (seeded_world garden_records) 34 (-117) birds [] = (Some c1, s1, w1) \<and>
      select_candidate (upstream garden_records) s1 w1 34 (-117) birds [] = (Some c2, s2, w2) \<and>
      select_candidate (upstream garden_records) s2 w2 34 (-117) birds [] = (Some c3, s3, w3) \<and>
      clock w3 = 1700000000290 \<and>
      set [c1, c2, c3] \<subseteq> set (garden_birds 0 0 0) \<and>
      distinct [name c1, name c2, name c3] \<and>
      fst (select_candidate (upstream garden_records) s3 w3 34 (-117) birds [])
        = Some (gbif_bird ''House Sparrow'' ''Passer domesticus'' ''urban'' 1700000000290)) \<and>
   fst (select_candidate (upstream garden_records) (fst garden_later) (snd garden_later)
          34 (-117) birds [])
     = Some (gbif_bird ''Rock Dove'' ''Columba livia'' ''woodland'' 1700000000290) \<and>
   (\<exists>s' w'.
      select_candidate (upstream sharp_records) (seeded_service sharp_records)
        (seeded_world sharp_records) 34 (-117) birds [] = (Some (sharp_birds 0 0 0 ! 1), s', w') \<and>
      map_option entry_species (getCachedEntry s' 34 (-117) birds)
        = Some (sharp_birds 1700000000290 0 0)) \<and>
   fst (selectSpecies (upstream garden_records) (seeded_service garden_records)
          (seeded_world garden_records) 34 (-117) (Some ''bird''))
     = \<lparr>sel_name = ''Rock Dove'', sel_scientificName = ''Columba livia'', sel_type = ''bird''\<rparr>"
proof -
  have rnd: "\<forall>n. 0 \<le> random (upstream garden_records) n \<and> random (upstream garden_records) n < 1"
    and rnd': "\<forall>n. 0 \<le> random (upstream sharp_records) n \<and> random (upstream sharp_records) n < 1"
    by simp_all
  obtain found s0 w0 entry0 where seed: "seed garden_records = (found, s0, w0)"
    and hit0: "getCachedEntry s0 34 (-117) birds = Some entry0"
    and es0: "entry_species entry0 = garden_birds 0 0 0"
    and T0: "twoDaysMs s0 = 172800000" and days: "noRepeatDays s0 = 2"
    and clk0: "clock w0 = 1700000000290"
    by (rule garden_seeded)
  have s0: "seeded_service garden_records = s0" and w0: "seeded_world garden_records = w0"
    by (simp_all add: seeded_service_def seeded_world_def seed)
  have len: "length (garden_birds t0 t1 t2) = 3" for t0 t1 t2 by (simp add: garden_birds_def)
  note pol0 = selection_policy [OF hit0 rnd, where w = w0 and found = "[]" and speciesType = "''bird''",
      unfolded Let_def]
  have U0: "filter (\<lambda>x. lastUsed x = 0 \<or> noRepeatDays s0 * 24 * 60 * 60 * 1000 \<le> clock w0 - lastUsed x)
      (entry_species entry0) = garden_birds 0 0 0"
    by (simp add: es0 days clk0 garden_birds_def gbif_bird_def)
  have h1: "filter (\<lambda>x. lastUsed x = 0 \<or> noRepeatDays s0 * 24 * 60 * 60 * 1000 \<le> clock w0 - lastUsed x)
      (entry_species entry0) \<noteq> []"
    unfolding U0 by (simp add: garden_birds_def)
  note first0 = pol0 [THEN conjunct1, THEN conjunct1, THEN mp, OF h1, unfolded U0 random_const]
  have a: "fst (select_candidate (upstream garden_records) s0 w0 34 (-117) birds [])
      = Some (garden_birds 0 0 0 ! 1)"
    using first0 len by (rule middle_of_three)
  have h3: "length (entry_species entry0) = 3 \<and>
     (\<forall>x \<in> set (entry_species entry0). lastUsed x = 0 \<or> 172800000 \<le> clock w0 - lastUsed x) \<and>
     distinct (map (\<lambda>x. toLowerCase (name x)) (entry_species entry0)) \<and>
     noRepeatDays s0 = 2 \<and> 0 < clock w0"
    by (simp add: es0 len garden_lower days clk0) (simp add: garden_birds_def gbif_bird_def)
  have b: "\<exists>c1 s1 w1 c2 s2 w2 c3 s3 w3.
      select_candidate (upstream garden_records) s0 w0 34 (-117) birds [] = (Some c1, s1, w1) \<and>
      select_candidate (upstream garden_records) s1 w1 34 (-117) birds [] = (Some c2, s2, w2) \<and>
      select_candidate (upstream garden_records) s2 w2 34 (-117) birds [] = (Some c3, s3, w3) \<and>
      clock w3 = 1700000000290 \<and>
      set [c1, c2, c3] \<subseteq> set (garden_birds 0 0 0) \<and>
      distinct [name c1, name c2, name c3] \<and>
      fst (select_candidate (upstream garden_records) s3 w3 34 (-117) birds [])
        = Some (gbif_bird ''House Sparrow'' ''Passer domesticus'' ''urban'' 1700000000290)"
    using pol0 [THEN conjunct2, THEN conjunct2, THEN conjunct1, THEN mp, OF h3]
    by (simp only: es0 clk0 garden_hd) (simp add: gbif_bird_def)
  obtain entry3 where hit3: "getCachedEntry (fst garden_later) 34 (-117) birds = Some entry3"
    and es3: "entry_species entry3 = garden_birds 1700000002290 1700000000290 1700000001290"
    and T3: "twoDaysMs (fst garden_later) = 172800000"
    and clk3: "clock (snd garden_later) = 1700000003290"
    by (rule garden_later_run)
  from T3 have days3: "noRepeatDays (fst garden_later) * 24 * 60 * 60 * 1000 = 172800000"
    by (simp add: twoDaysMs_def)
  have h2: "entry_species entry3 \<noteq> [] \<and>
     filter (\<lambda>x. lastUsed x = 0 \<or>
                 noRepeatDays (fst garden_later) * 24 * 60 * 60 * 1000
                   \<le> clock (snd garden_later) - lastUsed x) (entry_species entry3) = []"
    unfolding days3 by (simp add: es3 clk3) (simp add: garden_birds_def gbif_bird_def)
  have "\<exists>i < length (entry_species entry3).
      fst (select_candidate (upstream garden_records) (fst garden_later) (snd garden_later)
             34 (-117) birds []) = Some (entry_species entry3 ! i) \<and>
      (\<forall>x \<in> set (entry_species entry3). lastUsed (entry_species entry3 ! i) \<le> lastUsed x) \<and>
      (\<forall>j < i. lastUsed (entry_species entry3 ! i) < lastUsed (entry_species entry3 ! j))"
    by (rule selection_policy [OF hit3 rnd, where w = "snd garden_later" and found = "[]" and
          speciesType = "''bird''", unfolded Let_def,
          THEN conjunct1, THEN conjunct2, THEN mp, OF h2])
  then obtain i where i': "i < length (entry_species entry3)"
    and sel': "fst (select_candidate (upstream garden_records) (fst garden_later) (snd garden_later)
             34 (-117) birds []) = Some (entry_species entry3 ! i)"
    and least': "\<forall>x \<in> set (entry_species entry3). lastUsed (entry_species entry3 ! i) \<le> lastUsed x"
    by blast
  from i' have i: "i < 3" by (simp add: es3 garden_birds_def)
  from sel' have sel: "fst (select_candidate (upstream garden_records) (fst garden_later) (snd garden_later)
          34 (-117) birds [])
        = Some (garden_birds 1700000002290 1700000000290 1700000001290 ! i)"
    by (simp only: es3)
  from least' have least: "\<forall>x \<in> set (garden_birds 1700000002290 1700000000290 1700000001290).
        lastUsed (garden_birds 1700000002290 1700000000290 1700000001290 ! i) \<le> lastUsed x"
    by (simp only: es3)
  from least have "lastUsed (garden_birds 1700000002290 1700000000290 1700000001290 ! i) \<le> 1700000000290"
    by (simp add: garden_birds_def gbif_bird_def)
  with i have "i = 1"
    by (cases i rule: nat.exhaust [case_product nat.exhaust])
      (auto simp: garden_birds_def gbif_bird_def less_Suc_eq numeral_3_eq_3)
  with sel have c: "fst (select_candidate (upstream garden_records) (fst garden_later) (snd garden_later)
          34 (-117) birds [])
     = Some (gbif_bird ''Rock Dove'' ''Columba livia'' ''woodland'' 1700000000290)"
    by (simp add: garden_birds_def)
  obtain found' z0 v0 entry' where seed': "seed sharp_records = (found', z0, v0)"
    and hit': "getCachedEntry z0 34 (-117) birds = Some entry'"
    and es': "entry_species entry' = sharp_birds 0 0 0"
    and days': "noRepeatDays z0 = 2" and clk': "clock v0 = 1700000000290"
    by (rule sharp_seeded)
  have z0: "seeded_service sharp_records = z0" and v0: "seeded_world sharp_records = v0"
    by (simp_all add: seeded_service_def seeded_world_def seed')
  have len': "length (sharp_birds t0 t1 t2) = 3" for t0 t1 t2 by (simp add: sharp_birds_def)
  note pol' = selection_policy [OF hit' rnd', where w = v0 and found = "[]" and speciesType = "''bird''",
      unfolded Let_def]
  have U': "filter (\<lambda>x. lastUsed x = 0 \<or> noRepeatDays z0 * 24 * 60 * 60 * 1000 \<le> clock v0 - lastUsed x)
      (entry_species entry') = sharp_birds 0 0 0"
    by (simp add: es' days' clk' sharp_birds_def gbif_bird_def)
  have h1': "filter (\<lambda>x. lastUsed x = 0 \<or> noRepeatDays z0 * 24 * 60 * 60 * 1000 \<le> clock v0 - lastUsed x)
      (entry_species entry') \<noteq> []"
    unfolding U' by (simp add: sharp_birds_def)
  note first1 = pol' [THEN conjunct1, THEN conjunct1, THEN mp, OF h1', unfolded U' random_const]
  have first': "fst (select_candidate (upstream sharp_records) z0 v0 34 (-117) birds [])
      = Some (sharp_birds 0 0 0 ! 1)"
    using first1 len' by (rule middle_of_three)
  have ne': "entry_species entry' \<noteq> []" by (simp add: es' sharp_birds_def)
  from pol' [THEN conjunct2, THEN conjunct1, THEN mp, OF ne']
  obtain c' s' w' i' where sel5: "select_candidate (upstream sharp_records) z0 v0 34 (-117) birds []
        = (Some c', s', w')"
    and i5: "i' < length (entry_species entry')"
      "\<forall>j < i'. toLowerCase (name (entry_species entry' ! j)) \<noteq> toLowerCase (name c')"
    and hit5: "getCachedEntry s' 34 (-117) birds =
             Some (entry'\<lparr>entry_species :=
                     (entry_species entry')[i' := (entry_species entry' ! i')\<lparr>lastUsed := clock v0\<rparr>]\<rparr>)"
    by blast
  from sel5 first' have c5: "c' = sharp_birds 0 0 0 ! 1" by simp
  have same: "toLowerCase (name (sharp_birds 0 0 0 ! 0)) = toLowerCase (name (sharp_birds 0 0 0 ! 1))"
    using sharp_lower [of 0 0 0] by (simp add: sharp_birds_def)
  have "i' = 0"
  proof (rule ccontr)
    assume "i' \<noteq> 0"
    then have "0 < i'" by simp
    with i5(2) have "toLowerCase (name (entry_species entry' ! 0)) \<noteq> toLowerCase (name c')"
      by blast
    with same show False by (simp add: es' c5)
  qed
  with hit5 have "map_option entry_species (getCachedEntry s' 34 (-117) birds)
      = Some (sharp_birds 1700000000290 0 0)"
    by (simp add: es' clk' sharp_birds_def gbif_bird_def)
  with sel5 c5 have e: "\<exists>s' w'.
      select_candidate (upstream sharp_records) z0 v0 34 (-117) birds []
        = (Some (sharp_birds 0 0 0 ! 1), s', w') \<and>
      map_option entry_species (getCachedEntry s' 34 (-117) birds)
        = Some (sharp_birds 1700000000290 0 0)"
    by blast
  have F1: "filter (eligible 1700000000290 172800000) (garden_birds 0 0 0)
      = [garden_birds 0 0 0 ! 0, garden_birds 0 0 0 ! 1, garden_birds 0 0 0 ! 2]"
    by code_simp
  have S1: "stamp_used 1700000000290 (garden_birds 0 0 0 ! 1) (garden_birds 0 0 0)
      = Some (garden_birds 0 1700000000290 0)"
    by code_simp
  obtain s1 w1 where
    sel1: "select_candidate (upstream garden_records) s0 w0 34 (-117) birds
             (slice0 50 (garden_birds 0 0 0)) = (Some (garden_birds 0 0 0 ! 1), s1, w1)"
    by (rule run_step [OF hit0 es0 T0 clk0 F1 pick_second_of_three S1, of garden_records
          "slice0 50 (garden_birds 0 0 0)"])
  have m: "matching_class (toLowerCase ''bird'') = Some birds" by code_simp
  have fmt: "format_selection birds (garden_birds 0 0 0 ! 1)
      = \<lparr>sel_name = ''Rock Dove'', sel_scientificName = ''Columba livia'', sel_type = ''bird''\<rparr>"
    by code_simp
  have h4: "''bird'' \<noteq> [] \<and> matching_class (toLowerCase ''bird'') = Some birds \<and>
     entry_species entry0 \<noteq> []"
    by (simp add: m es0) (simp add: garden_birds_def)
  have "selectSpecies (upstream garden_records) s0 w0 34 (-117) (Some ''bird'') =
      (case select_candidate (upstream garden_records) s0 w0 34 (-117) birds
              (slice0 50 (entry_species entry0)) of
         (None, s', w') \<Rightarrow> (getFallbackSpecies, s', w')
       | (Some c, s', w') \<Rightarrow> (format_selection birds c, s', w'))"
    by (rule pol0 [THEN conjunct2, THEN conjunct2, THEN conjunct2, THEN mp, OF h4])
  then have "selectSpecies (upstream garden_records) s0 w0 34 (-117) (Some ''bird'')
      = (format_selection birds (garden_birds 0 0 0 ! 1), s1, w1)"
    by (simp only: es0 sel1 prod.case option.case)
  then have d: "fst (selectSpecies (upstream garden_records) s0 w0 34 (-117) (Some ''bird''))
     = \<lparr>sel_name = ''Rock Dove'', sel_scientificName = ''Columba livia'', sel_type = ''bird''\<rparr>"
    by (simp only: fmt fst_conv)
  from a b c e d show ?thesis unfolding s0 w0 z0 v0 by (intro conjI)
qed

end
